theory Spec2Isabelle
  imports Main "HOL-Library.AList"
begin

unbundle bit_operations_syntax

section \<open>JavaScript numbers and 32-bit operators\<close>

text \<open>
  The counts and keys of \<^verbatim>\<open>Shared/MarkerBreakdown.js\<close> are JavaScript numbers that
  hold integers. The operators \<^verbatim>\<open><<\<close>, \<^verbatim>\<open>>>\<close> and \<^verbatim>\<open>&\<close> first convert their operands
  to signed 32-bit integers (ToInt32) and return a signed 32-bit integer; \<^verbatim>\<open>+\<close> does not.
  The functions that pack and unpack a bucket key take the numbers of markers as \<open>int\<close>
  and write the conversion out.
\<close>

definition toInt32 :: "int \<Rightarrow> int" where
  "toInt32 x = (x + 2 ^ 31) mod 2 ^ 32 - 2 ^ 31"

definition js_shl :: "int \<Rightarrow> nat \<Rightarrow> int" where
  "js_shl x n = toInt32 (toInt32 x * 2 ^ (n mod 32))"

definition js_sar :: "int \<Rightarrow> nat \<Rightarrow> int" where
  "js_sar x n = toInt32 x div 2 ^ (n mod 32)"

definition js_and :: "int \<Rightarrow> int \<Rightarrow> int" where
  "js_and x y = toInt32 x AND toInt32 y"

text \<open>
  A JavaScript number is an IEEE-754 double. The counts of the breakdown are integers:
  the model keeps an integer-valued double as \<open>Num\<close> of its value (the two zeros are one
  value), next to \<^verbatim>\<open>NaN\<close> and the two infinities. Every integer of magnitude up to
  \<open>2^53\<close> is a double; above, the doubles are the multiples of a power of two, \<open>ulp\<close>,
  and the exact result of an addition is rounded to the nearest of them, to the one with
  an even significand on a tie. A rounded result of magnitude \<open>2^1024\<close> or more is an
  infinity.
\<close>

function ulp :: "int \<Rightarrow> int" where
  "ulp n = (if n < 2 ^ 53 then 1 else 2 * ulp (n div 2))"
  by pat_completeness auto
termination
  by (relation "measure nat") auto

declare ulp.simps [simp del]

definition roundToDouble :: "int \<Rightarrow> int" where
  "roundToDouble x =
     (if \<bar>x\<bar> < 2 ^ 53 then x
      else (let u = ulp \<bar>x\<bar>; q = \<bar>x\<bar> div u; r = \<bar>x\<bar> mod u;
                q' = (if u < 2 * r \<or> (2 * r = u \<and> odd q) then q + 1 else q)
            in sgn x * (q' * u)))"

datatype jsnum = Num int | NaN | Infinity | NegInfinity

definition fromExact :: "int \<Rightarrow> jsnum" where
  "fromExact x =
     (let r = roundToDouble x
      in if 2 ^ 1024 \<le> r then Infinity else if r \<le> - (2 ^ 1024) then NegInfinity else Num r)"

text \<open>The operator \<^verbatim>\<open>+\<close> on two numbers.\<close>

fun jsadd :: "jsnum \<Rightarrow> jsnum \<Rightarrow> jsnum" where
  "jsadd (Num a) (Num b) = fromExact (a + b)"
| "jsadd NaN _ = NaN"
| "jsadd _ NaN = NaN"
| "jsadd Infinity NegInfinity = NaN"
| "jsadd NegInfinity Infinity = NaN"
| "jsadd Infinity _ = Infinity"
| "jsadd _ Infinity = Infinity"
| "jsadd NegInfinity _ = NegInfinity"
| "jsadd _ NegInfinity = NegInfinity"

fun numval :: "jsnum \<Rightarrow> int" where
  "numval (Num a) = a"
| "numval _ = 0"


section \<open>Shared/MarkerBreakdown.js\<close>

definition IntroMask :: int where
  "IntroMask = 65535"

definition CreditsShift :: nat where
  "CreditsShift = 16"

text \<open>
  \<^verbatim>\<open>deltaFromType\<close>: the \<^verbatim>\<open>switch\<close> on the marker type string; the default branch logs an
  error and falls back to the intro encoding.
\<close>

definition deltaFromType :: "int \<Rightarrow> string \<Rightarrow> int" where
  "deltaFromType delta markerType =
     (if markerType = ''intro'' then delta
      else if markerType = ''credits'' then js_shl delta CreditsShift
      else delta)"

definition markerCountFromKey :: "int \<Rightarrow> int" where
  "markerCountFromKey key = js_sar key CreditsShift + js_and key IntroMask"

definition keyFromMarkerCount :: "int \<Rightarrow> int \<Rightarrow> int" where
  "keyFromMarkerCount intros credits =
     deltaFromType intros ''intro'' + deltaFromType credits ''credits''"

text \<open>The private helpers \<^verbatim>\<open>#ic\<close> (intro count from key) and \<^verbatim>\<open>#cc\<close> (credits count).\<close>

definition ic :: "int \<Rightarrow> int" where
  "ic v = js_and v IntroMask"

definition cc :: "int \<Rightarrow> int" where
  "cc v = js_sar v CreditsShift"

text \<open>
  \<^verbatim>\<open>#counts\<close> is an object from bucket key to the number of items in the bucket. It is
  modelled as the list of its properties in the order in which \<^verbatim>\<open>Object.values\<close>
  enumerates them: first the keys that are array indices (the integers from 0 to
  \<open>2^32 - 2\<close>) in ascending order, then the other keys in the order of their creation.
  A key is the number used to index the object; a lookup and an assignment act on the
  first entry of a key.
\<close>

type_synonym MarkerBreakdownMap = "(jsnum \<times> jsnum) list"

definition isArrayIndex :: "jsnum \<Rightarrow> bool" where
  "isArrayIndex k = (case k of Num i \<Rightarrow> 0 \<le> i \<and> i < 2 ^ 32 - 1 | _ \<Rightarrow> False)"

text \<open>The creation of a property whose key is an array index: it is placed after the
  smaller array indices.\<close>

fun insertProp :: "jsnum \<Rightarrow> jsnum \<Rightarrow> MarkerBreakdownMap \<Rightarrow> MarkerBreakdownMap" where
  "insertProp k v [] = [(k, v)]"
| "insertProp k v (p # ps) =
     (if isArrayIndex (fst p) \<and> numval (fst p) < numval k then p # insertProp k v ps
      else (k, v) # p # ps)"

text \<open>\<^verbatim>\<open>counts[k] = v\<close>: an existing property keeps its place, a new one is created.\<close>

definition setProp :: "jsnum \<Rightarrow> jsnum \<Rightarrow> MarkerBreakdownMap \<Rightarrow> MarkerBreakdownMap" where
  "setProp k v counts =
     (case map_of counts k of
        Some w \<Rightarrow> AList.update k v counts
      | None \<Rightarrow> if isArrayIndex k then insertProp k v counts else counts @ [(k, v)])"

text \<open>\<^verbatim>\<open>counts[k] ??= 0\<close>: only a missing (undefined) property is assigned.\<close>

definition nullishAssignZero :: "MarkerBreakdownMap \<Rightarrow> jsnum \<Rightarrow> MarkerBreakdownMap" where
  "nullishAssignZero counts k =
     (case map_of counts k of None \<Rightarrow> setProp k (Num 0) counts | Some v \<Rightarrow> counts)"

text \<open>
  \<^verbatim>\<open>--counts[k]\<close> and \<^verbatim>\<open>++counts[k]\<close>: the property is read (a missing one converts to
  \<^verbatim>\<open>NaN\<close>), changed by \<open>d\<close> and stored.
\<close>

definition addToCount :: "int \<Rightarrow> MarkerBreakdownMap \<Rightarrow> jsnum \<Rightarrow> MarkerBreakdownMap" where
  "addToCount d counts k =
     setProp k (jsadd (case map_of counts k of None \<Rightarrow> NaN | Some v \<Rightarrow> v) (Num d)) counts"

text \<open>\<^verbatim>\<open>delta(oldBucket, delta)\<close>; the key \<^verbatim>\<open>oldBucket + delta\<close> is a sum of numbers.\<close>

definition delta :: "MarkerBreakdownMap \<Rightarrow> jsnum \<Rightarrow> jsnum \<Rightarrow> MarkerBreakdownMap" where
  "delta counts oldBucket d =
     (let c1 = nullishAssignZero counts (jsadd oldBucket d);
          c2 = addToCount (- 1) c1 oldBucket;
          c3 = addToCount 1 c2 (jsadd oldBucket d)
      in c3)"






section \<open>The library database and the server state\<close>

text \<open>
  A marker row of the library database (table \<^verbatim>\<open>taggings\<close>), with the fields the
  commands and the tests read: \<^verbatim>\<open>id\<close>, the parent's metadata id (\<^verbatim>\<open>episode_id\<close> in the
  queries of the source), \<^verbatim>\<open>index\<close>, \<^verbatim>\<open>start\<close>, \<^verbatim>\<open>end\<close>, the marker type, the
  final flag and whether the user created the marker. Times are milliseconds.
\<close>

record marker =
  marker_id :: int
  episode_id :: int
  index :: int
  start :: int
  end_ms :: int
  marker_type :: string
  final :: bool
  createdByUser :: bool

text \<open>
  A \<^verbatim>\<open>ServerError\<close> carries a message and an HTTP status; the messages of the source are
  told apart by constructor, with the numbers they interpolate. \<^verbatim>\<open>TypeError\<close> is what
  JavaScript throws on a property write to \<^verbatim>\<open>undefined\<close>.
\<close>

datatype message =
    StartNotLessThanEnd int int
  | StartNegative int
  | IntroMarkerNotFound
  | CouldNotFindIntroMarker
  | MarkerEditOverlaps int int int int
  | AdapterMessage string

datatype server_error = ServerError message int | TypeError

text \<open>
  The marker cache, the legacy marker breakdown and the backup manager (the action log)
  are not under \<^verbatim>\<open>src/\<close>. The model records, in order, every call a command makes to
  them; a command that records no call changed neither the cache nor the action log.
  \<^verbatim>\<open>MarkerCache_delta\<close> is the cache update of the specification
  (\<^verbatim>\<open>cache.delta(parentId, oldIntros, oldCredits, newIntros, newCredits)\<close>).
\<close>

datatype call =
    LegacyMarkerBreakdown_Update marker int int
  | MarkerCache_addMarkerToCache marker
  | MarkerCache_removeMarkerFromCache int
  | MarkerCache_delta int int int int int
  | BackupManager_recordAdd marker
  | BackupManager_recordEdit marker int int
  | BackupManager_recordDelete marker

text \<open>
  The state: the marker rows, the metadata items (type and parent; type 1 is a movie,
  2 a show, 3 a season, 4 an episode) and the media items (metadata id and duration) of
  the library database, as \<^verbatim>\<open>Test/TestBase.js\<close> creates them; whether a marker cache and a
  backup manager exist (\<^verbatim>\<open>MarkerCache?.\<close>, \<^verbatim>\<open>BackupManager?.\<close>); and the recorded calls.
\<close>

record metadata_item =
  metadata_type :: int
  parent_id :: "int option"

record server_state =
  taggings :: "marker list"
  metadata_items :: "(int \<times> metadata_item) list"
  media_items :: "(int \<times> int) list"
  hasMarkerCache :: bool
  hasBackupManager :: bool
  calls :: "call list"

text \<open>
  A call of \<^verbatim>\<open>LegacyMarkerBreakdown.Update\<close>, and a call through \<^verbatim>\<open>?.\<close>, which is made
  only when the component exists.
\<close>

definition callLegacyMarkerBreakdownUpdate ::
  "server_state \<Rightarrow> marker \<Rightarrow> int \<Rightarrow> int \<Rightarrow> server_state" where
  "callLegacyMarkerBreakdownUpdate st m oldCount d =
     st\<lparr>calls := calls st @ [LegacyMarkerBreakdown_Update m oldCount d]\<rparr>"

definition optionalCall :: "bool \<Rightarrow> call \<Rightarrow> server_state \<Rightarrow> server_state" where
  "optionalCall present c st = (if present then st\<lparr>calls := calls st @ [c]\<rparr> else st)"

subsection \<open>The query manager\<close>

text \<open>
  \<^verbatim>\<open>QueryManager\<close> (the Library DB Adapter, \<^verbatim>\<open>PlexQueryManager.js\<close>) is not under
  \<^verbatim>\<open>src/\<close>. Its operations follow section 4.A of the specification.
\<close>

text \<open>
  Modelled from the spec: \<^verbatim>\<open>QueryManager.getSingleMarker\<close>, missing from \<^verbatim>\<open>src/\<close>; the
  marker row with the given id, if there is one.
\<close>

definition getSingleMarker :: "server_state \<Rightarrow> int \<Rightarrow> marker option" where
  "getSingleMarker st markerId = find (\<lambda>m. marker_id m = markerId) (taggings st)"

text \<open>
  Modelled from the spec: \<^verbatim>\<open>QueryManager.getEpisodeMarkers\<close>, missing from \<^verbatim>\<open>src/\<close>;
  \<^verbatim>\<open>ListMarkers(parentId)\<close>, the markers of the parent sorted by start.
\<close>

definition getEpisodeMarkers :: "server_state \<Rightarrow> int \<Rightarrow> marker list" where
  "getEpisodeMarkers st metadataId =
     sort_key start (filter (\<lambda>m. episode_id m = metadataId) (taggings st))"

text \<open>
  Modelled from the spec: \<^verbatim>\<open>QueryManager.updateMarkerIndex\<close>, missing from \<^verbatim>\<open>src/\<close>;
  \<^verbatim>\<open>UpdateMarkerIndex(id, index)\<close>.
\<close>

definition updateMarkerIndex :: "server_state \<Rightarrow> int \<Rightarrow> int \<Rightarrow> server_state" where
  "updateMarkerIndex st markerId newIndex =
     st\<lparr>taggings := map (\<lambda>m. if marker_id m = markerId then m\<lparr>index := newIndex\<rparr> else m) (taggings st)\<rparr>"

text \<open>
  Modelled from the spec: \<^verbatim>\<open>QueryManager.deleteMarker\<close>, missing from \<^verbatim>\<open>src/\<close>;
  \<^verbatim>\<open>DeleteMarker(id)\<close>.
\<close>

definition QueryManager_deleteMarker :: "server_state \<Rightarrow> int \<Rightarrow> server_state" where
  "QueryManager_deleteMarker st markerId =
     st\<lparr>taggings := filter (\<lambda>m. marker_id m \<noteq> markerId) (taggings st)\<rparr>"

text \<open>
  Modelled from the spec: \<^verbatim>\<open>QueryManager.editMarker\<close>, missing from \<^verbatim>\<open>src/\<close>;
  \<^verbatim>\<open>UpdateMarker\<close> restricted to the fields the source passes (index, start, end and
  whether the user created the marker).
\<close>

definition QueryManager_editMarker :: "server_state \<Rightarrow> int \<Rightarrow> int \<Rightarrow> int \<Rightarrow> int \<Rightarrow> int \<Rightarrow> server_state" where
  "QueryManager_editMarker st markerId newIndex startMs endMs userCreated =
     st\<lparr>taggings := map (\<lambda>m. if marker_id m = markerId
          then m\<lparr>index := newIndex, start := startMs, end_ms := endMs, createdByUser := (userCreated \<noteq> 0)\<rparr>
          else m) (taggings st)\<rparr>"

section \<open>Server/Commands/CoreCommands.js (src/unnamed/part_002)\<close>

text \<open>
  \<^verbatim>\<open>#checkMarkerBounds\<close>: the two checks of the source, in its order. The result is the
  error thrown, if any.
\<close>

definition checkMarkerBounds :: "int \<Rightarrow> int \<Rightarrow> server_error option" where
  "checkMarkerBounds startMs endMs =
     (if startMs \<ge> endMs then Some (ServerError (StartNotLessThanEnd startMs endMs) 400)
      else if startMs < 0 then Some (ServerError (StartNegative startMs) 400)
      else None)"

text \<open>
  A command returns the state it leaves behind and either the error it threw or its
  result.
\<close>

type_synonym 'a result = "server_state \<times> (server_error + 'a)"


text \<open>
  \<^verbatim>\<open>editMarker\<close>. The loop over the sorted markers throws at the first marker other
  than the edited one whose closed interval meets the new one, and otherwise records the
  position of the edited marker; \<^verbatim>\<open>marker.newIndex\<close> of every marker is its position.
  The index updates are started without \<^verbatim>\<open>await\<close>; the model applies them in order.
\<close>

fun editLoop :: "int \<Rightarrow> int \<Rightarrow> int \<Rightarrow> marker list \<Rightarrow> int \<Rightarrow> int \<Rightarrow> server_error + int" where
  "editLoop markerId startMs endMs [] idx newIndex = Inr newIndex"
| "editLoop markerId startMs endMs (marker # rest) idx newIndex =
     (if end_ms marker \<ge> startMs \<and> start marker \<le> endMs \<and> marker_id marker \<noteq> markerId
      then Inl (ServerError (MarkerEditOverlaps startMs endMs (start marker) (end_ms marker)) 400)
      else editLoop markerId startMs endMs rest (idx + 1)
             (if marker_id marker = markerId then idx else newIndex))"

fun adjustIndexes :: "server_state \<Rightarrow> marker list \<Rightarrow> int \<Rightarrow> server_state" where
  "adjustIndexes st [] newIndex = st"
| "adjustIndexes st (marker # rest) newIndex =
     adjustIndexes
       (if index marker \<noteq> newIndex then updateMarkerIndex st (marker_id marker) newIndex else st)
       rest (newIndex + 1)"

definition editMarker :: "server_state \<Rightarrow> int \<Rightarrow> int \<Rightarrow> int \<Rightarrow> int \<Rightarrow> marker result" where
  "editMarker st markerId startMs endMs userCreated =
     (case checkMarkerBounds startMs endMs of
        Some err \<Rightarrow> (st, Inl err)
      | None \<Rightarrow>
     (case getSingleMarker st markerId of
        None \<Rightarrow> (st, Inl (ServerError IntroMarkerNotFound 400))
      | Some currentMarker \<Rightarrow>
          (let oldIndex = index currentMarker;
               allMarkers = getEpisodeMarkers st (episode_id currentMarker)
           in if oldIndex < 0 \<or> int (length allMarkers) \<le> oldIndex then (st, Inl TypeError)
              else
                (let edited = (allMarkers ! nat oldIndex)\<lparr>start := startMs, end_ms := endMs\<rparr>;
                     sortedMarkers = sort_key start (allMarkers[nat oldIndex := edited])
                 in case editLoop markerId startMs endMs sortedMarkers 0 0 of
                      Inl err \<Rightarrow> (st, Inl err)
                    | Inr newIndex \<Rightarrow>
                        (let st1 = QueryManager_editMarker st markerId newIndex startMs endMs userCreated;
                             st2 = adjustIndexes st1 sortedMarkers 0;
                             newMarker = currentMarker\<lparr>start := startMs, end_ms := endMs\<rparr>;
                             st3 = optionalCall (hasBackupManager st2)
                                     (BackupManager_recordEdit newMarker (start currentMarker) (end_ms currentMarker)) st2
                         in (st3, Inr newMarker))))))"

text \<open>
  \<^verbatim>\<open>deleteMarker\<close>. The index updates of the siblings are again applied in order.
\<close>

definition deleteMarker :: "server_state \<Rightarrow> int \<Rightarrow> marker result" where
  "deleteMarker st markerId =
     (case getSingleMarker st markerId of
        None \<Rightarrow> (st, Inl (ServerError CouldNotFindIntroMarker 400))
      | Some markerToDelete \<Rightarrow>
          (let allMarkers = getEpisodeMarkers st (episode_id markerToDelete);
               deleteIndex = foldl (\<lambda>di marker. if marker_id marker = markerId then index marker else di) 0 allMarkers;
               st1 = QueryManager_deleteMarker st markerId;
               st2 = (if deleteIndex < int (length allMarkers) - 1
                      then foldl (\<lambda>s marker. if index marker > deleteIndex
                                     then updateMarkerIndex s (marker_id marker) (index marker - 1) else s)
                             st1 allMarkers
                      else st1);
               deletedMarker = markerToDelete;
               st3 = optionalCall (hasMarkerCache st2) (MarkerCache_removeMarkerFromCache markerId) st2;
               st4 = callLegacyMarkerBreakdownUpdate st3 deletedMarker (int (length allMarkers)) (- 1);
               st5 = optionalCall (hasBackupManager st4) (BackupManager_recordDelete deletedMarker) st4
           in (st5, Inr deletedMarker)))"

section \<open>BulkShiftRow.update of the bulk shift overlay (src/unnamed/part_003)\<close>

text \<open>
  The row of the bulk shift table: its marker, the duration of its episode, whether its
  check box is checked, and what \<^verbatim>\<open>update\<close> computes: \<^verbatim>\<open>#isError\<close>, \<^verbatim>\<open>#isWarn\<close>, the new
  start and end shown in the row (in milliseconds, before \<^verbatim>\<open>msToHms\<close>), and the style
  class set on the two cells. A shift value is \<open>None\<close> when the input does not parse
  (\<^verbatim>\<open>NaN\<close>); \<^verbatim>\<open>value || 0\<close> then gives 0. The styling of the check box cell, which depends
  on the other rows of the table, is left out.
\<close>

datatype BulkShiftClassType = Reset | On | Error | Warn

record BulkShiftRow =
  rowMarker :: marker
  episodeDuration :: int
  enabled :: bool
  enabledLastUpdate :: "bool option"
  isWarn :: bool
  isError :: bool
  newStartTime :: int
  newEndTime :: int
  newStartClass :: "BulkShiftClassType option"
  newEndClass :: "BulkShiftClassType option"

definition orZero :: "int option \<Rightarrow> int" where
  "orZero v = (case v of None \<Rightarrow> 0 | Some x \<Rightarrow> x)"

definition update :: "int option \<Rightarrow> int option \<Rightarrow> BulkShiftRow \<Rightarrow> BulkShiftRow" where
  "update shiftStartValue shiftEndValue row =
     (let row0 = row\<lparr>isError := False, isWarn := False\<rparr>;
          startShift = orZero shiftStartValue;
          endShift = orZero shiftEndValue;
          row1 = (if Some (enabled row0) \<noteq> enabledLastUpdate row0
                  then (if \<not> enabled row0
                        then row0\<lparr>newStartClass := Some Reset, newEndClass := Some Reset\<rparr>
                        else row0)\<lparr>enabledLastUpdate := Some (enabled row0)\<rparr>
                  else row0);
          start' = start (rowMarker row1) + startShift;
          end' = end_ms (rowMarker row1) + endShift;
          maxDuration = episodeDuration row1;
          newStart = max 0 (min start' maxDuration);
          newEnd = max 0 (min end' maxDuration);
          row2 = row1\<lparr>newStartTime := newStart, newEndTime := newEnd\<rparr>
      in if enabled row2
         then if end' < 0 \<or> start' > maxDuration \<or> end' \<le> start'
              then row2\<lparr>newStartClass := Some Error, newEndClass := Some Error, isError := True\<rparr>
              else (let row3 = (if start' < 0
                                then row2\<lparr>newStartClass := Some Warn, isWarn := True\<rparr>
                                else row2\<lparr>newStartClass := Some On\<rparr>)
                    in if end' > maxDuration
                       then row3\<lparr>isWarn := True, newEndClass := Some Warn\<rparr>
                       else row3\<lparr>newEndClass := Some On\<rparr>)
         else row2)"

definition newRow :: "marker \<Rightarrow> int \<Rightarrow> bool \<Rightarrow> BulkShiftRow" where
  "newRow m d en =
     \<lparr>rowMarker = m, episodeDuration = d, enabled = en, enabledLastUpdate = None,
      isWarn = False, isError = False, newStartTime = start m, newEndTime = end_ms m,
      newStartClass = None, newEndClass = None\<rparr>"

section \<open>The default test database\<close>

text \<open>
  The markers, metadata items and media items of \<^verbatim>\<open>TestBase.DefaultMetadata\<close> and
  \<^verbatim>\<open>setupPlexDbTestTables\<close>.
\<close>

definition mk :: "int \<Rightarrow> int \<Rightarrow> int \<Rightarrow> int \<Rightarrow> int \<Rightarrow> string \<Rightarrow> bool \<Rightarrow> marker" where
  "mk i ep ix s e t f =
     \<lparr>marker_id = i, episode_id = ep, index = ix,
      start = s, end_ms = e, marker_type = t, final = f, createdByUser = False\<rparr>"

definition defaultMarkers :: "marker list" where
  "defaultMarkers =
     [mk 1 4 0 15000 45000 ''intro'' False,
      mk 2 13 0 15000 45000 ''intro'' False,
      mk 3 14 0 15000 45000 ''intro'' False,
      mk 4 14 1 300000 345000 ''credits'' False,
      mk 5 14 2 360000 370000 ''credits'' True,
      mk 6 16 0 13000 47000 ''intro'' False,
      mk 7 101 0 10000 30000 ''intro'' False,
      mk 8 101 1 40000 45000 ''credits'' False,
      mk 9 101 2 55000 60000 ''credits'' True,
      mk 10 102 0 15000 45000 ''intro'' False]"

definition item :: "int \<Rightarrow> int option \<Rightarrow> metadata_item" where
  "item t p = \<lparr>metadata_type = t, parent_id = p\<rparr>"

definition defaultMetadataItems :: "(int \<times> metadata_item) list" where
  "defaultMetadataItems =
     [(1, item 2 None), (2, item 3 (Some 1)), (3, item 4 (Some 2)), (4, item 4 (Some 2)),
      (5, item 4 (Some 2)), (6, item 3 (Some 1)), (7, item 4 (Some 6)),
      (8, item 2 None), (9, item 3 (Some 8)), (10, item 4 (Some 9)),
      (11, item 2 None), (12, item 3 (Some 11)), (13, item 4 (Some 12)), (14, item 4 (Some 12)),
      (15, item 3 (Some 11)), (16, item 4 (Some 15)),
      (17, item 2 None), (18, item 3 (Some 17)), (19, item 4 (Some 18)),
      (100, item 1 None), (101, item 1 None), (102, item 1 None),
      (200, item 8 None), (201, item 9 (Some 200)), (202, item 10 (Some 201))]"

definition defaultMediaItems :: "(int \<times> int) list" where
  "defaultMediaItems =
     [(3, 600000), (4, 600000), (5, 600000), (7, 600000), (10, 600000), (13, 600000),
      (14, 600000), (16, 600000), (19, 600000), (100, 600000), (101, 600000), (102, 600000)]"

definition testState :: server_state where
  "testState = \<lparr>taggings = defaultMarkers, metadata_items = defaultMetadataItems,
     media_items = defaultMediaItems,
     hasMarkerCache = True, hasBackupManager = True, calls = []\<rparr>"

section \<open>Auxiliary definitions\<close>

text \<open>
  An overlap error of \<^verbatim>\<open>editMarker\<close>; the rows after the index updates of
  \<^verbatim>\<open>deleteMarker\<close>; and the overlap of two intervals as the specification defines it
  (P2: touching intervals do not overlap).
\<close>

fun isOverlapError :: "server_error \<Rightarrow> bool" where
  "isOverlapError (ServerError (MarkerEditOverlaps _ _ _ _) _) = True"
| "isOverlapError _ = False"

definition decremented :: "(marker \<Rightarrow> bool) \<Rightarrow> marker list \<Rightarrow> marker \<Rightarrow> marker" where
  "decremented P xs r =
     (case find (\<lambda>x. P x \<and> marker_id x = marker_id r) xs of
        Some x \<Rightarrow> r\<lparr>index := index x - 1\<rparr> | None \<Rightarrow> r)"

definition spec_intersects :: "int \<Rightarrow> int \<Rightarrow> int \<Rightarrow> int \<Rightarrow> bool" where
  "spec_intersects s1 e1 s2 e2 = (\<not> (e1 \<le> s2 \<or> e2 \<le> s1))"

section \<open>Operations modelled from the specification\<close>

text \<open>
  The code of these operations is part of the repository but not under \<^verbatim>\<open>src/\<close>; only
  their callers and tests are. Each definition follows the words of the specification.
\<close>


text \<open>
  Modelled from the spec: the re-indexing of sections 3 and 4.D, missing from \<^verbatim>\<open>src/\<close>.
  The index of a marker is its rank among the markers of its parent sorted by start.
\<close>

definition rankIn :: "marker list \<Rightarrow> int \<Rightarrow> int" where
  "rankIn ordered markerId = int (length (takeWhile (\<lambda>m. marker_id m \<noteq> markerId) ordered))"

definition reindexParent :: "marker list \<Rightarrow> int \<Rightarrow> marker list" where
  "reindexParent rows p =
     (let ordered = sort_key start (filter (\<lambda>m. episode_id m = p) rows)
      in map (\<lambda>r. if episode_id r = p then r\<lparr>index := rankIn ordered (marker_id r)\<rparr> else r) rows)"

text \<open>
  Modelled from the spec: the duration of a parent (\<^verbatim>\<open>GetItem\<close>), read from the media
  items; an item without a media item has no playable duration.
\<close>

definition durationOf :: "server_state \<Rightarrow> int \<Rightarrow> int" where
  "durationOf st p = (case map_of (media_items st) p of Some d \<Rightarrow> d | None \<Rightarrow> 0)"




text \<open>
  Modelled from the spec: the error kinds of section 7, returned by the operations below.
\<close>

datatype error_kind =
    BadRequest | BadTarget | NotFound | Overlap | Conflict | Overflow
  | FeatureDisabled | Unavailable | Internal

text \<open>
  Modelled from the spec: the classification of a shifted marker (section 4.E), missing
  from \<^verbatim>\<open>src/\<close> on the server side.
\<close>

datatype classification = ClassError | ClassCutoff | ClassClean

definition classify :: "int \<Rightarrow> int \<Rightarrow> int \<Rightarrow> marker \<Rightarrow> classification" where
  "classify duration dStart dEnd m =
     (let start' = start m + dStart; end' = end_ms m + dEnd
      in if end' \<le> 0 \<or> duration \<le> start' \<or> end' \<le> start' then ClassError
         else if start' < 0 \<or> duration < end' then ClassCutoff
         else ClassClean)"


text \<open>
  Modelled from the spec: \<^verbatim>\<open>ListMarkersForSubtree(rootId)\<close>, missing from \<^verbatim>\<open>src/\<close>: the
  markers of the root itself, of its children and of its grandchildren (episode or
  movie, season, show).
\<close>

definition parentOf :: "server_state \<Rightarrow> int \<Rightarrow> int option" where
  "parentOf st i = (case map_of (metadata_items st) i of Some it \<Rightarrow> parent_id it | None \<Rightarrow> None)"

definition inSubtree :: "server_state \<Rightarrow> int \<Rightarrow> int \<Rightarrow> bool" where
  "inSubtree st rootId p =
     (p = rootId \<or> parentOf st p = Some rootId
      \<or> (case parentOf st p of Some q \<Rightarrow> parentOf st q = Some rootId | None \<Rightarrow> False))"

definition ListMarkersForSubtree :: "server_state \<Rightarrow> int \<Rightarrow> marker list" where
  "ListMarkersForSubtree st rootId =
     filter (\<lambda>m. inSubtree st rootId (episode_id m)) (taggings st)"

record ShiftResult =
  applied :: bool
  conflict :: bool
  overflow :: bool
  allMarkers :: "marker list"

text \<open>
  Modelled from the spec: the clamp of a cut off marker on commit,
  \<open>[max 0 start', min duration end']\<close>; on a clean marker it is the plain shift.
\<close>

definition clampShifted :: "int \<Rightarrow> int \<Rightarrow> int \<Rightarrow> marker \<Rightarrow> marker" where
  "clampShifted duration dStart dEnd m =
     m\<lparr>start := max 0 (start m + dStart), end_ms := min duration (end_ms m + dEnd)\<rparr>"

text \<open>
  Modelled from the spec: \<^verbatim>\<open>Shift(rootId, dStart, dEnd, force, ignoreIds)\<close>, the server's
  shift engine, missing from \<^verbatim>\<open>src/\<close>; steps 1 to 10 of section 4.E. The pair of deltas
  \<open>(0, 0)\<close> is rejected by the request dispatcher before the engine runs.
\<close>

definition Shift ::
  "server_state \<Rightarrow> int \<Rightarrow> int \<Rightarrow> int \<Rightarrow> bool \<Rightarrow> int list \<Rightarrow> server_state \<times> ShiftResult" where
  "Shift st rootId dStart dEnd force ignoreIds =
     (let enumerated = ListMarkersForSubtree st rootId;
          retained = filter (\<lambda>m. marker_id m \<notin> set ignoreIds) enumerated;
          linked = list_ex (\<lambda>m. 1 < length (filter (\<lambda>m'. episode_id m' = episode_id m) retained))
                     retained;
          isErr = (\<lambda>m. classify (durationOf st (episode_id m)) dStart dEnd m = ClassError);
          anyError = list_ex isErr retained
      in if linked \<and> \<not> force
         then (st, \<lparr>applied = False, conflict = True, overflow = anyError, allMarkers = enumerated\<rparr>)
         else if anyError \<and> \<not> force
         then (st, \<lparr>applied = False, conflict = False, overflow = True, allMarkers = enumerated\<rparr>)
         else
           (let toWrite = filter (\<lambda>m. \<not> isErr m) retained;
                shifted = map (\<lambda>m. clampShifted (durationOf st (episode_id m)) dStart dEnd m) toWrite;
                rows1 = map (\<lambda>r. case find (\<lambda>m. marker_id m = marker_id r) shifted of
                                    Some m' \<Rightarrow> m' | None \<Rightarrow> r) (taggings st);
                rows2 = foldl reindexParent rows1 (remdups (map episode_id shifted));
                st1 = st\<lparr>taggings := rows2\<rparr>;
                stored = filter (\<lambda>r. marker_id r \<in> set (map marker_id shifted)) rows2;
                st2 = foldl (\<lambda>s new.
                        case find (\<lambda>m. marker_id m = marker_id new) toWrite of
                          Some old \<Rightarrow> optionalCall (hasBackupManager s)
                                        (BackupManager_recordEdit new (start old) (end_ms old)) s
                        | None \<Rightarrow> s) st1 stored
            in (st2, \<lparr>applied = True, conflict = False, overflow = False, allMarkers = stored\<rparr>)))"


text \<open>
  Modelled from the spec: step 4 of Edit, "any two distinct markers intersect".
\<close>

fun anyTwoIntersect :: "marker list \<Rightarrow> bool" where
  "anyTwoIntersect [] = False"
| "anyTwoIntersect (m # ms) =
     (list_ex (\<lambda>m'. spec_intersects (start m) (end_ms m) (start m') (end_ms m')) ms
      \<or> anyTwoIntersect ms)"

text \<open>
  Modelled from the spec: the legal marker types (invariant I4).
\<close>

definition legalType :: "string \<Rightarrow> bool" where
  "legalType t = (t = ''intro'' \<or> t = ''credits'' \<or> t = ''commercial'')"

text \<open>
  Modelled from the spec: the number of markers of a type, for the cache delta.
\<close>

definition countType :: "string \<Rightarrow> marker list \<Rightarrow> int" where
  "countType t ms = int (length (filter (\<lambda>m. marker_type m = t) ms))"

text \<open>
  Modelled from the spec: \<^verbatim>\<open>Edit(markerId, start, end, type, final)\<close> of section 4.D,
  steps 1 to 9. \<^verbatim>\<open>editMarker\<close> of \<^verbatim>\<open>CoreCommands.js\<close> under \<^verbatim>\<open>src/\<close> takes neither a type
  nor a final flag; the edit with both is missing from \<^verbatim>\<open>src/\<close>.
\<close>

definition Edit ::
  "server_state \<Rightarrow> int \<Rightarrow> int \<Rightarrow> int \<Rightarrow> string \<Rightarrow> bool \<Rightarrow> server_state \<times> (error_kind + marker)" where
  "Edit st markerId startMs endMs markerType finalFlag =
     (case getSingleMarker st markerId of
        None \<Rightarrow> (st, Inl NotFound)
      | Some existing \<Rightarrow>
          (let final' = (if finalFlag \<and> markerType \<noteq> ''credits'' then False else finalFlag);
               p = episode_id existing
           in if startMs < 0 \<or> endMs \<le> startMs \<or> durationOf st p < endMs \<or> \<not> legalType markerType
              then (st, Inl BadRequest)
              else
                (let target = existing\<lparr>start := startMs, end_ms := endMs,
                                        marker_type := markerType, final := final'\<rparr>;
                     siblings = getEpisodeMarkers st p;
                     replaced = map (\<lambda>m. if marker_id m = markerId then target else m) siblings
                 in if anyTwoIntersect (sort_key start replaced) then (st, Inl Overlap)
                    else
                      (let rows1 = map (\<lambda>r. if marker_id r = markerId then target else r) (taggings st);
                           rows2 = reindexParent rows1 p;
                           st1 = st\<lparr>taggings := rows2\<rparr>;
                           updated = (case find (\<lambda>r. marker_id r = markerId) rows2 of
                                        Some u \<Rightarrow> u | None \<Rightarrow> target);
                           st2 = (if marker_type existing \<noteq> markerType
                                  then optionalCall (hasMarkerCache st1)
                                         (MarkerCache_delta p
                                            (countType ''intro'' siblings) (countType ''credits'' siblings)
                                            (countType ''intro'' replaced) (countType ''credits'' replaced))
                                         st1
                                  else st1);
                           st3 = optionalCall (hasBackupManager st2)
                                   (BackupManager_recordEdit updated (start existing) (end_ms existing)) st2
                       in (st3, Inr updated)))))"


section \<open>Properties of the packed bucket key\<close>

lemma toInt32_id: "- (2 ^ 31) \<le> x \<Longrightarrow> x < 2 ^ 31 \<Longrightarrow> toInt32 x = x"
  by (simp add: toInt32_def)

lemma and_IntroMask: "(k::int) AND 65535 = k mod 65536"
proof -
  have "(65535::int) = mask 16"
    by (simp add: mask_eq_exp_minus_1)
  then have "k AND 65535 = take_bit 16 k"
    by (simp add: take_bit_eq_mask)
  then show ?thesis
    by (simp add: take_bit_eq_mod)
qed

lemma keyFromMarkerCount_small:
  assumes "0 \<le> i" "i < 65536" "0 \<le> c" "c < 32768"
  shows "keyFromMarkerCount i c = c * 65536 + i"
proof -
  have "toInt32 c = c"
    using assms by (intro toInt32_id) auto
  moreover have "toInt32 (c * 65536) = c * 65536"
    using assms by (intro toInt32_id) auto
  ultimately show ?thesis
    by (simp add: keyFromMarkerCount_def deltaFromType_def js_shl_def CreditsShift_def)
qed

lemma ic_packed:
  assumes "0 \<le> i" "i < 65536" "0 \<le> c" "c < 32768"
  shows "ic (c * 65536 + i) = i"
proof -
  have "toInt32 (c * 65536 + i) = c * 65536 + i"
    using assms by (intro toInt32_id) auto
  then show ?thesis
    using assms by (simp add: ic_def js_and_def IntroMask_def toInt32_def[of 65535] and_IntroMask)
qed

lemma cc_packed:
  assumes "0 \<le> i" "i < 65536" "0 \<le> c" "c < 32768"
  shows "cc (c * 65536 + i) = c"
proof -
  have "toInt32 (c * 65536 + i) = c * 65536 + i"
    using assms by (intro toInt32_id) auto
  then show ?thesis
    using assms by (simp add: cc_def js_sar_def CreditsShift_def)
qed

text \<open>
  Claim C8, as amended. For \<open>0 \<le> intros < 2^16\<close> and \<open>0 \<le> credits < 2^15\<close> the packed
  key is \<open>credits * 2^16 + intros\<close>, \<^verbatim>\<open>#ic\<close> returns \<open>intros\<close>, \<^verbatim>\<open>#cc\<close> returns
  \<open>credits\<close>, and \<^verbatim>\<open>markerCountFromKey\<close> returns \<open>intros + credits\<close>. The credits
  bound is \<open>2^15\<close>, not \<open>2^16\<close>: \<^verbatim>\<open><<\<close> yields a signed 32-bit integer.
\<close>

theorem keyFromMarkerCount_roundtrip:
  assumes "0 \<le> intros" "intros < 2 ^ 16" "0 \<le> credits" "credits < 2 ^ 15"
  shows "keyFromMarkerCount intros credits = credits * 2 ^ 16 + intros
       \<and> ic (keyFromMarkerCount intros credits) = intros
       \<and> cc (keyFromMarkerCount intros credits) = credits
       \<and> markerCountFromKey (keyFromMarkerCount intros credits) = intros + credits"
proof -
  have b: "0 \<le> intros" "intros < 65536" "0 \<le> credits" "credits < 32768"
    using assms by simp_all
  have k: "keyFromMarkerCount intros credits = credits * 65536 + intros"
    by (rule keyFromMarkerCount_small [OF b])
  have i: "ic (credits * 65536 + intros) = intros"
    by (rule ic_packed [OF b])
  have c: "cc (credits * 65536 + intros) = credits"
    by (rule cc_packed [OF b])
  have "markerCountFromKey (credits * 65536 + intros)
      = cc (credits * 65536 + intros) + ic (credits * 65536 + intros)"
    by (simp add: markerCountFromKey_def cc_def ic_def)
  with k i c show ?thesis
    by simp
qed

theorem keyFromMarkerCount_roundtrip_witness:
  "keyFromMarkerCount 3 2 = 2 * 2 ^ 16 + 3
   \<and> ic (keyFromMarkerCount 3 2) = 3
   \<and> cc (keyFromMarkerCount 3 2) = 2
   \<and> markerCountFromKey (keyFromMarkerCount 3 2) = 3 + 2"
proof -
  have "(0::int) \<le> 3" "(3::int) < 2 ^ 16" "(0::int) \<le> 2" "(2::int) < 2 ^ 15"
    by simp_all
  then show ?thesis
    by (rule keyFromMarkerCount_roundtrip)
qed

text \<open>
  Claim C8 as stated fails at \<open>intros = 0\<close>, \<open>credits = 32768 = 2^15 < 2^16\<close>:
  \<^verbatim>\<open>32768 << 16\<close> is \<open>-2147483648\<close>, so the key is negative, and the credits count
  and the marker count read back from it are \<open>-32768\<close>.
\<close>

theorem keyFromMarkerCount_credits_overflow:
  "(0::int) \<le> 32768 \<and> (32768::int) < 2 ^ 16
   \<and> keyFromMarkerCount 0 32768 = - 2147483648
   \<and> keyFromMarkerCount 0 32768 \<noteq> 32768 * 2 ^ 16 + 0
   \<and> cc (keyFromMarkerCount 0 32768) \<noteq> 32768
   \<and> markerCountFromKey (keyFromMarkerCount 0 32768) \<noteq> 0 + 32768"
  by (simp add: keyFromMarkerCount_def markerCountFromKey_def deltaFromType_def js_shl_def
      js_sar_def js_and_def cc_def IntroMask_def CreditsShift_def toInt32_def)

section \<open>Commercial markers in the breakdown\<close>

text \<open>
  Claim C9, as amended. \<^verbatim>\<open>deltaFromType\<close> has no branch for \<^verbatim>\<open>'commercial'\<close>: the default
  branch returns the delta unchanged, as for an intro. A bucket key moved by such a delta
  has its intro count changed by the delta and its credits count unchanged.
\<close>

theorem deltaFromType_commercial:
  assumes "0 \<le> i" "i < 2 ^ 16" "0 \<le> i + d" "i + d < 2 ^ 16" "0 \<le> c" "c < 2 ^ 15"
  shows "deltaFromType d ''commercial'' = deltaFromType d ''intro''
       \<and> ic (keyFromMarkerCount i c + deltaFromType d ''commercial'') = i + d
       \<and> cc (keyFromMarkerCount i c + deltaFromType d ''commercial'') = c"
proof -
  have b: "0 \<le> i" "i < 65536" "0 \<le> c" "c < 32768"
    using assms by simp_all
  have b': "0 \<le> i + d" "i + d < 65536"
    using assms by simp_all
  have k: "keyFromMarkerCount i c = c * 65536 + i"
    by (rule keyFromMarkerCount_small [OF b])
  have d: "deltaFromType d ''commercial'' = d"
    by (simp add: deltaFromType_def)
  have e: "c * 65536 + i + d = c * 65536 + (i + d)"
    by simp
  have 1: "deltaFromType d ''commercial'' = deltaFromType d ''intro''"
    by (simp add: deltaFromType_def)
  have 2: "ic (keyFromMarkerCount i c + deltaFromType d ''commercial'') = i + d"
    unfolding k d e by (rule ic_packed [OF b' b(3,4)])
  have 3: "cc (keyFromMarkerCount i c + deltaFromType d ''commercial'') = c"
    unfolding k d e by (rule cc_packed [OF b' b(3,4)])
  show ?thesis
    by (intro conjI 1 2 3)
qed

theorem deltaFromType_commercial_witness:
  "deltaFromType 1 ''commercial'' = deltaFromType 1 ''intro''
   \<and> ic (keyFromMarkerCount 2 1 + deltaFromType 1 ''commercial'') = 2 + 1
   \<and> cc (keyFromMarkerCount 2 1 + deltaFromType 1 ''commercial'') = 1"
proof -
  have "(0::int) \<le> 2" "(2::int) < 2 ^ 16" "(0::int) \<le> 2 + 1" "(2::int) + 1 < 2 ^ 16"
    "(0::int) \<le> 1" "(1::int) < 2 ^ 15"
    by simp_all
  then show ?thesis
    by (rule deltaFromType_commercial)
qed

text \<open>
  Claim C9 as stated fails: a delta of one commercial marker applied to the bucket of an
  item with no markers raises the intro count from 0 to 1.
\<close>

theorem deltaFromType_commercial_counts_as_intro:
  "ic (keyFromMarkerCount 0 0) = 0
   \<and> ic (keyFromMarkerCount 0 0 + deltaFromType 1 ''commercial'') = 1
   \<and> ic (keyFromMarkerCount 0 0 + deltaFromType 1 ''commercial'') \<noteq> ic (keyFromMarkerCount 0 0)"
  by (simp add: keyFromMarkerCount_def deltaFromType_def js_shl_def js_and_def ic_def
      IntroMask_def CreditsShift_def toInt32_def)

section \<open>The number of items is invariant under delta\<close>


























section \<open>Editing a marker: overlap\<close>

lemma editLoop_Inl_iff:
  "(\<exists>err. editLoop markerId startMs endMs ms idx newIndex = Inl err)
     = (\<exists>m\<in>set ms. startMs \<le> end_ms m \<and> start m \<le> endMs \<and> marker_id m \<noteq> markerId)"
  by (induction ms arbitrary: idx newIndex) auto

lemma editLoop_Inl_overlap:
  "editLoop markerId startMs endMs ms idx newIndex = Inl err \<Longrightarrow> isOverlapError err"
  by (induction ms arbitrary: idx newIndex) (auto split: if_splits)

lemma Bex_list_update:
  assumes "k < length xs" "\<not> Q (xs ! k)" "\<not> Q x"
  shows "(\<exists>m\<in>set (xs[k := x]). Q m) = (\<exists>m\<in>set xs. Q m)"
proof
  assume "\<exists>m\<in>set (xs[k := x]). Q m"
  then obtain i where i: "i < length xs" "Q (xs[k := x] ! i)"
    by (auto simp: in_set_conv_nth)
  then have "i \<noteq> k"
    using assms by auto
  then have "Q (xs ! i)"
    using i by simp
  then show "\<exists>m\<in>set xs. Q m"
    using i(1) by auto
next
  assume "\<exists>m\<in>set xs. Q m"
  then obtain i where i: "i < length xs" "Q (xs ! i)"
    by (auto simp: in_set_conv_nth)
  then have "i \<noteq> k"
    using assms by auto
  then have "xs[k := x] ! i = xs ! i"
    by simp
  then have "xs ! i \<in> set (xs[k := x])"
    using i(1) by (metis length_list_update nth_mem)
  then show "\<exists>m\<in>set (xs[k := x]). Q m"
    using i(2) by auto
qed

text \<open>
  Claim C1, as amended. For an edit of an existing marker with valid bounds, on a parent
  whose markers are indexed by position, \<^verbatim>\<open>editMarker\<close> throws the overlap error if and
  only if some other marker \<open>m\<close> of the parent has \<open>startMs \<le> end m\<close> and
  \<open>start m \<le> endMs\<close>: intervals are compared as closed intervals, so an interval that
  only touches a sibling is rejected too. Whenever \<^verbatim>\<open>editMarker\<close> throws, the state (the
  marker rows and the calls to the cache and the backup manager) is unchanged.
\<close>

theorem editMarker_overlap:
  assumes bounds: "checkMarkerBounds startMs endMs = None"
    and cur: "getSingleMarker st markerId = Some currentMarker"
    and idx: "0 \<le> index currentMarker"
      "nat (index currentMarker) < length (getEpisodeMarkers st (episode_id currentMarker))"
    and self: "marker_id (getEpisodeMarkers st (episode_id currentMarker) ! nat (index currentMarker))
                 = markerId"
  shows "((\<exists>err. snd (editMarker st markerId startMs endMs userCreated) = Inl err \<and> isOverlapError err)
           = (\<exists>m\<in>set (getEpisodeMarkers st (episode_id currentMarker)).
                 marker_id m \<noteq> markerId \<and> startMs \<le> end_ms m \<and> start m \<le> endMs))
       \<and> (\<forall>err. snd (editMarker st markerId startMs endMs userCreated) = Inl err
           \<longrightarrow> fst (editMarker st markerId startMs endMs userCreated) = st)"
proof -
  define allMarkers where "allMarkers = getEpisodeMarkers st (episode_id currentMarker)"
  define k where "k = nat (index currentMarker)"
  define edited where "edited = (allMarkers ! k)\<lparr>start := startMs, end_ms := endMs\<rparr>"
  define sorted where "sorted = sort_key start (allMarkers[k := edited])"
  define Q where "Q = (\<lambda>m::marker. startMs \<le> end_ms m \<and> start m \<le> endMs \<and> marker_id m \<noteq> markerId)"
  have k: "k < length allMarkers"
    using idx(2) by (simp add: k_def allMarkers_def)
  have range: "\<not> (index currentMarker < 0 \<or> int (length allMarkers) \<le> index currentMarker)"
    using idx k by (simp add: k_def)
  have e: "editMarker st markerId startMs endMs userCreated =
        (case editLoop markerId startMs endMs sorted 0 0 of
           Inl err \<Rightarrow> (st, Inl err)
         | Inr newIndex \<Rightarrow>
             (let st1 = QueryManager_editMarker st markerId newIndex startMs endMs userCreated;
                  st2 = adjustIndexes st1 sorted 0;
                  newMarker = currentMarker\<lparr>start := startMs, end_ms := endMs\<rparr>;
                  st3 = optionalCall (hasBackupManager st2)
                          (BackupManager_recordEdit newMarker (start currentMarker) (end_ms currentMarker)) st2
              in (st3, Inr newMarker)))"
    using bounds cur range
    unfolding sorted_def edited_def k_def allMarkers_def
    by (simp add: editMarker_def Let_def)
  have nq: "\<not> Q (allMarkers ! k)" "\<not> Q edited"
    using self by (simp_all add: Q_def edited_def allMarkers_def k_def)
  have "(\<exists>err. editLoop markerId startMs endMs sorted 0 0 = Inl err) = (\<exists>m\<in>set sorted. Q m)"
    unfolding Q_def by (rule editLoop_Inl_iff)
  also have "\<dots> = (\<exists>m\<in>set (allMarkers[k := edited]). Q m)"
    by (simp add: sorted_def)
  also have "\<dots> = (\<exists>m\<in>set allMarkers. Q m)"
    using k nq by (rule Bex_list_update)
  finally have loop: "(\<exists>err. editLoop markerId startMs endMs sorted 0 0 = Inl err)
      = (\<exists>m\<in>set allMarkers. Q m)" .
  have "(\<exists>err. snd (editMarker st markerId startMs endMs userCreated) = Inl err \<and> isOverlapError err)
      = (\<exists>err. editLoop markerId startMs endMs sorted 0 0 = Inl err)"
    unfolding e using editLoop_Inl_overlap [of markerId startMs endMs sorted 0 0]
    by (cases "editLoop markerId startMs endMs sorted 0 0") (auto simp: Let_def)
  also note loop
  finally have first: "(\<exists>err. snd (editMarker st markerId startMs endMs userCreated) = Inl err \<and> isOverlapError err)
           = (\<exists>m\<in>set (getEpisodeMarkers st (episode_id currentMarker)).
                 marker_id m \<noteq> markerId \<and> startMs \<le> end_ms m \<and> start m \<le> endMs)"
    unfolding Q_def allMarkers_def by auto
  have second: "\<forall>err. snd (editMarker st markerId startMs endMs userCreated) = Inl err
           \<longrightarrow> fst (editMarker st markerId startMs endMs userCreated) = st"
    unfolding e by (cases "editLoop markerId startMs endMs sorted 0 0") (auto simp: Let_def)
  show ?thesis
    using first second by (rule conjI)
qed

lemma getSingleMarker_7: "getSingleMarker testState 7 = Some (mk 7 101 0 10000 30000 ''intro'' False)"
  by (simp add: getSingleMarker_def testState_def defaultMarkers_def mk_def)

lemma getEpisodeMarkers_101:
  "getEpisodeMarkers testState 101 =
     [mk 7 101 0 10000 30000 ''intro'' False, mk 8 101 1 40000 45000 ''credits'' False,
      mk 9 101 2 55000 60000 ''credits'' True]"
  by (simp add: getEpisodeMarkers_def testState_def defaultMarkers_def mk_def)

theorem editMarker_overlap_witness:
  "(\<exists>err. snd (editMarker testState 7 10000 42000 0) = Inl err \<and> isOverlapError err)
   \<and> fst (editMarker testState 7 10000 42000 0) = testState"
proof -
  let ?cur = "mk 7 101 0 10000 30000 ''intro'' False"
  have ep: "episode_id ?cur = 101" and ix: "index ?cur = 0"
    by (simp_all add: mk_def)
  have h1: "checkMarkerBounds 10000 42000 = None"
    by (simp add: checkMarkerBounds_def)
  have h3: "0 \<le> index ?cur"
    by (simp add: ix)
  have h4: "nat (index ?cur) < length (getEpisodeMarkers testState (episode_id ?cur))"
    by (simp add: ep ix getEpisodeMarkers_101)
  have h5: "marker_id (getEpisodeMarkers testState (episode_id ?cur) ! nat (index ?cur)) = 7"
    by (simp add: ep ix getEpisodeMarkers_101) (simp add: mk_def)
  note t = editMarker_overlap [OF h1 getSingleMarker_7 h3 h4 h5, of 0]
  have "\<exists>m\<in>set (getEpisodeMarkers testState (episode_id ?cur)).
          marker_id m \<noteq> 7 \<and> 10000 \<le> end_ms m \<and> start m \<le> 42000"
    by (simp add: ep getEpisodeMarkers_101) (simp add: mk_def)
  then have a: "\<exists>err. snd (editMarker testState 7 10000 42000 0) = Inl err \<and> isOverlapError err"
    using t by blast
  then have "fst (editMarker testState 7 10000 42000 0) = testState"
    using t by blast
  then show ?thesis
    using a by (rule conjI [rotated])
qed

text \<open>
  Claim C1 as stated fails on the default test database: editing marker 7 of movie 101
  from \<open>[10000, 30000]\<close> to \<open>[10000, 40000]\<close> only touches marker 8
  \<open>[40000, 45000]\<close> and intersects no sibling, and \<^verbatim>\<open>editMarker\<close> throws the overlap
  error.
\<close>

theorem editMarker_rejects_touching:
  "snd (editMarker testState 7 10000 40000 0)
     = Inl (ServerError (MarkerEditOverlaps 10000 40000 40000 45000) 400)
   \<and> fst (editMarker testState 7 10000 40000 0) = testState
   \<and> getEpisodeMarkers testState 101
       = [mk 7 101 0 10000 30000 ''intro'' False, mk 8 101 1 40000 45000 ''credits'' False,
          mk 9 101 2 55000 60000 ''credits'' True]
   \<and> \<not> spec_intersects 10000 40000 40000 45000
   \<and> \<not> spec_intersects 10000 40000 55000 60000"
proof -
  have e: "editMarker testState 7 10000 40000 0
          = (testState, Inl (ServerError (MarkerEditOverlaps 10000 40000 40000 45000) 400))"
    by (simp add: editMarker_def checkMarkerBounds_def getSingleMarker_7 getEpisodeMarkers_101
        Let_def mk_def)
  have a: "snd (editMarker testState 7 10000 40000 0)
          = Inl (ServerError (MarkerEditOverlaps 10000 40000 40000 45000) 400)"
    and b: "fst (editMarker testState 7 10000 40000 0) = testState"
    unfolding e by simp_all
  note c = getEpisodeMarkers_101
  have d: "\<not> spec_intersects 10000 40000 40000 45000"
    and f: "\<not> spec_intersects 10000 40000 55000 60000"
    by (simp_all add: spec_intersects_def)
  show ?thesis
    by (intro conjI a b c d f)
qed

section \<open>Deleting a marker: indices\<close>

lemma unique_by_id:
  "distinct (map marker_id xs) \<Longrightarrow> x \<in> set xs \<Longrightarrow> y \<in> set xs
   \<Longrightarrow> marker_id x = marker_id y \<Longrightarrow> x = y"
  by (meson distinct_map inj_on_eq_iff)

lemma set_getEpisodeMarkers:
  "set (getEpisodeMarkers st p) = {m \<in> set (taggings st). episode_id m = p}"
  by (auto simp: getEpisodeMarkers_def)

lemma distinct_getEpisodeMarkers:
  assumes "distinct (map marker_id (taggings st))"
  shows "distinct (map marker_id (getEpisodeMarkers st p))"
proof -
  have "distinct (taggings st)" "inj_on marker_id (set (taggings st))"
    using assms by (simp_all add: distinct_map)
  then have "distinct (getEpisodeMarkers st p)" "inj_on marker_id (set (getEpisodeMarkers st p))"
    by (auto simp: getEpisodeMarkers_def intro: inj_on_subset)
  then show ?thesis
    by (simp add: distinct_map)
qed

lemma deleteIndex_fold:
  assumes "\<forall>x\<in>set xs. marker_id x = markerId \<longrightarrow> index x = k"
  shows "foldl (\<lambda>di marker. if marker_id marker = markerId then index marker else di) d xs
       = (if \<exists>x\<in>set xs. marker_id x = markerId then k else d)"
  using assms by (induction xs arbitrary: d) auto

lemma marker_id_decremented: "marker_id (decremented P xs r) = marker_id r"
  by (simp add: decremented_def split: option.splits)

lemma fold_updateMarkerIndex:
  assumes "distinct (map marker_id xs)"
  shows "taggings (foldl (\<lambda>s marker. if P marker
             then updateMarkerIndex s (marker_id marker) (index marker - 1) else s) st xs)
       = map (decremented P xs) (taggings st)"
  using assms
proof (induction xs arbitrary: st)
  case Nil
  then show ?case by (simp add: decremented_def)
next
  case (Cons x xs)
  have d: "distinct (map marker_id xs)" and nx: "marker_id x \<notin> marker_id ` set xs"
    using Cons.prems by simp_all
  have none: "find (\<lambda>y. P y \<and> marker_id y = marker_id x) xs = None"
    unfolding find_None_iff using nx by (metis image_eqI)
  show ?case
  proof (cases "P x")
    case True
    have "decremented P xs (if marker_id r = marker_id x then r\<lparr>index := index x - 1\<rparr> else r)
            = decremented P (x # xs) r" for r
      using True none by (simp add: decremented_def)
    then show ?thesis
      using True Cons.IH [OF d] by (simp add: updateMarkerIndex_def comp_def)
  next
    case False
    have "decremented P xs r = decremented P (x # xs) r" for r
      using False by (simp add: decremented_def)
    then show ?thesis
      using False Cons.IH [OF d] by simp
  qed
qed

lemma shifted_indices:
  assumes "0 \<le> k"
  shows "map (\<lambda>i. if k < i then i - 1 else i) (filter (\<lambda>i. i \<noteq> k) (map int [0..<N]))
     = map int [0..<(if k < int N then N - 1 else N)]"
proof (induction N)
  case 0
  then show ?case by simp
next
  case (Suc N)
  let ?h = "\<lambda>i. if k < i then i - 1 else i"
  let ?f = "filter (\<lambda>i. i \<noteq> k)"
  have step: "map ?h (?f (map int [0..<Suc N])) = map ?h (?f (map int [0..<N])) @ map ?h (?f [int N])"
    by simp
  consider "k < int N" | "k = int N" | "int N < k"
    by linarith
  then show ?case
  proof cases
    case 1
    then have n: "N = Suc (N - 1)"
      using assms by simp
    have "[0..<N] = [0..<N - 1] @ [N - 1]"
      using n by (metis upt_Suc_append zero_le)
    then have "map int [0..<N] = map int [0..<N - 1] @ [int (N - 1)]"
      by (metis list.simps(8,9) map_append)
    moreover have "int (N - 1) = int N - 1"
      using n by linarith
    moreover have "map ?h (?f (map int [0..<N])) = map int [0..<N - 1]"
      using Suc.IH 1 by simp
    moreover have "map ?h (?f [int N]) = [int N - 1]"
      using 1 by simp
    ultimately have "map ?h (?f (map int [0..<Suc N])) = map int [0..<N]"
      using step by simp
    then show ?thesis
      using 1 by simp
  next
    case 2
    then have "map ?h (?f (map int [0..<N])) = map int [0..<N]"
      using Suc.IH by simp
    moreover have "map ?h (?f [int N]) = []"
      using 2 by simp
    ultimately have "map ?h (?f (map int [0..<Suc N])) = map int [0..<N]"
      using step by simp
    then show ?thesis
      using 2 by simp
  next
    case 3
    then have "map ?h (?f (map int [0..<N])) = map int [0..<N]"
      using Suc.IH by simp
    moreover have "map ?h (?f [int N]) = [int N]"
      using 3 by simp
    ultimately have "map ?h (?f (map int [0..<Suc N])) = map int [0..<Suc N]"
      using step by simp
    then show ?thesis
      using 3 by simp
  qed
qed

lemma sort_key_map_same_key:
  assumes "\<And>x. f (g x) = f x"
  shows "sort_key f (map g xs) = map g (sort_key f xs)"
proof -
  have ins: "insort_key f (g x) (map g ys) = map g (insort_key f x ys)" for x ys
    by (induction ys) (simp_all add: assms)
  show ?thesis
    by (induction xs) (simp_all add: ins)
qed


lemma taggings_optionalCall [simp]: "taggings (optionalCall b c st) = taggings st"
  by (simp add: optionalCall_def)

lemma taggings_LegacyUpdate [simp]: "taggings (callLegacyMarkerBreakdownUpdate st m n d) = taggings st"
  by (simp add: callLegacyMarkerBreakdownUpdate_def)

text \<open>
  Claim C6. When marker ids are unique and the markers of the parent are indexed
  \<open>0, \<dots>, n\<close> by start, deleting marker \<open>m\<close> returns \<open>m\<close> as it was before the call;
  the rows left are the other rows, where every sibling with a greater index has its
  index decremented by one and every other row is unchanged; and the indices of the
  parent's markers, sorted by start, are \<open>0, \<dots>, n - 1\<close>.
\<close>

theorem deleteMarker_reindex:
  assumes ids: "distinct (map marker_id (taggings st))"
    and found: "getSingleMarker st markerId = Some m"
    and wf: "map index (getEpisodeMarkers st (episode_id m))
               = map int [0..<length (getEpisodeMarkers st (episode_id m))]"
  shows "snd (deleteMarker st markerId) = Inr m
       \<and> taggings (fst (deleteMarker st markerId))
           = map (\<lambda>s. if episode_id s = episode_id m \<and> index m < index s
                        then s\<lparr>index := index s - 1\<rparr> else s)
               (filter (\<lambda>s. marker_id s \<noteq> markerId) (taggings st))
       \<and> map index (getEpisodeMarkers (fst (deleteMarker st markerId)) (episode_id m))
           = map int [0..<length (getEpisodeMarkers st (episode_id m)) - 1]"
proof -
  define p where "p = episode_id m"
  define k where "k = index m"
  define allMarkers where "allMarkers = getEpisodeMarkers st p"
  define N where "N = length allMarkers"
  define rows where "rows = taggings st"
  define g where "g = (\<lambda>s::marker. if episode_id s = p \<and> k < index s
                        then s\<lparr>index := index s - 1\<rparr> else s)"
  define P where "P = (\<lambda>x::marker. k < index x)"
  have wf': "map index allMarkers = map int [0..<N]"
    using wf by (simp add: allMarkers_def p_def N_def)
  have m_rows: "m \<in> set rows" and m_id: "marker_id m = markerId"
    using found by (auto simp: getSingleMarker_def find_Some_iff rows_def in_set_conv_nth)
  have all_set: "set allMarkers = {x \<in> set rows. episode_id x = p}"
    by (simp add: allMarkers_def rows_def set_getEpisodeMarkers)
  have m_all: "m \<in> set allMarkers"
    using m_rows by (simp add: all_set p_def)
  have ids_all: "distinct (map marker_id allMarkers)"
    unfolding allMarkers_def using ids by (rule distinct_getEpisodeMarkers)
  have uniq: "x = y" if "x \<in> set rows" "y \<in> set rows" "marker_id x = marker_id y" for x y
    using ids that unfolding rows_def by (rule unique_by_id)
  have idx_range: "0 \<le> index x \<and> index x < int N" if "x \<in> set allMarkers" for x
  proof -
    have "index x \<in> set (map index allMarkers)"
      using that by simp
    then show ?thesis
      unfolding wf' by auto
  qed
  have k_range: "0 \<le> k" "k < int N"
    using idx_range [OF m_all] by (simp_all add: k_def)
  have inj_idx: "inj_on index (set allMarkers)"
  proof -
    have "distinct (map index allMarkers)"
      unfolding wf' by (simp add: distinct_map)
    then show ?thesis
      by (simp add: distinct_map)
  qed
  have id_iff: "(marker_id x \<noteq> markerId) = (index x \<noteq> k)" if "x \<in> set allMarkers" for x
  proof -
    have "marker_id x = markerId \<Longrightarrow> x = m"
      using that m_rows m_id uniq all_set by auto
    moreover have "index x = k \<Longrightarrow> x = m"
      using that m_all inj_idx by (auto simp: k_def dest: inj_onD)
    ultimately show ?thesis
      using m_id k_def by auto
  qed
  have deleteIndex: "foldl (\<lambda>di marker. if marker_id marker = markerId then index marker else di)
                       0 allMarkers = k"
  proof -
    have "\<forall>x\<in>set allMarkers. marker_id x = markerId \<longrightarrow> index x = k"
      using id_iff by auto
    then have "foldl (\<lambda>di marker. if marker_id marker = markerId then index marker else di)
                 0 allMarkers = (if \<exists>x\<in>set allMarkers. marker_id x = markerId then k else 0)"
      by (rule deleteIndex_fold)
    then show ?thesis
      using m_all m_id by auto
  qed
  have dec: "decremented P allMarkers r = g r" if r: "r \<in> set rows" for r
  proof (cases "find (\<lambda>x. P x \<and> marker_id x = marker_id r) allMarkers")
    case None
    have "\<not> (episode_id r = p \<and> k < index r)"
    proof
      assume "episode_id r = p \<and> k < index r"
      then have "r \<in> set allMarkers" "P r"
        using r by (simp_all add: all_set P_def)
      then show False
        using None by (auto simp: find_None_iff)
    qed
    then show ?thesis
      using None by (simp add: decremented_def g_def)
  next
    case (Some x)
    then have x: "x \<in> set allMarkers" "P x" "marker_id x = marker_id r"
      by (auto simp: find_Some_iff in_set_conv_nth)
    then have "x = r"
      using r uniq all_set by auto
    then show ?thesis
      using Some x by (simp add: decremented_def g_def P_def all_set)
  qed
  have g_id: "g r = r" if "r \<in> set rows" "\<not> k < int N - 1" for r
  proof (cases "episode_id r = p")
    case True
    then have "r \<in> set allMarkers"
      using that(1) by (simp add: all_set)
    then have "index r < int N"
      using idx_range by blast
    then show ?thesis
      using that(2) by (simp add: g_def)
  next
    case False
    then show ?thesis
      by (simp add: g_def)
  qed
  have rows1: "set (filter (\<lambda>s. marker_id s \<noteq> markerId) rows) \<subseteq> set rows"
    by auto
  have tags: "taggings (fst (deleteMarker st markerId))
            = map g (filter (\<lambda>s. marker_id s \<noteq> markerId) rows)"
  proof (cases "k < int N - 1")
    case True
    have "taggings (foldl (\<lambda>s marker. if P marker
             then updateMarkerIndex s (marker_id marker) (index marker - 1) else s)
               (QueryManager_deleteMarker st markerId) allMarkers)
        = map (decremented P allMarkers) (taggings (QueryManager_deleteMarker st markerId))"
      using ids_all by (rule fold_updateMarkerIndex)
    also have "\<dots> = map g (filter (\<lambda>s. marker_id s \<noteq> markerId) rows)"
      using dec rows1 by (auto simp: QueryManager_deleteMarker_def rows_def)
    finally show ?thesis
      using True found deleteIndex
      by (simp add: deleteMarker_def Let_def allMarkers_def [symmetric] p_def [symmetric]
          N_def [symmetric] P_def)
  next
    case False
    have "map g (filter (\<lambda>s. marker_id s \<noteq> markerId) rows)
        = filter (\<lambda>s. marker_id s \<noteq> markerId) rows"
      using g_id False by (intro map_idI) simp
    then show ?thesis
      using False found deleteIndex
      by (simp add: deleteMarker_def Let_def allMarkers_def [symmetric] p_def [symmetric]
          N_def [symmetric] QueryManager_deleteMarker_def rows_def)
  qed
  have ret: "snd (deleteMarker st markerId) = Inr m"
    using found by (simp add: deleteMarker_def Let_def)
  have ep_g: "episode_id (g x) = episode_id x" and start_g: "start (g x) = start x" for x
    by (simp_all add: g_def)
  have "getEpisodeMarkers (fst (deleteMarker st markerId)) p
      = sort_key start (filter (\<lambda>x. episode_id x = p)
          (map g (filter (\<lambda>s. marker_id s \<noteq> markerId) rows)))"
    by (simp add: getEpisodeMarkers_def tags)
  also have "\<dots> = sort_key start (map g (filter (\<lambda>x. episode_id x = p)
          (filter (\<lambda>s. marker_id s \<noteq> markerId) rows)))"
    by (simp add: filter_map comp_def ep_g)
  also have "\<dots> = map g (sort_key start (filter (\<lambda>x. episode_id x = p)
          (filter (\<lambda>s. marker_id s \<noteq> markerId) rows)))"
    using start_g by (rule sort_key_map_same_key)
  also have "filter (\<lambda>x. episode_id x = p) (filter (\<lambda>s. marker_id s \<noteq> markerId) rows)
      = filter (\<lambda>s. marker_id s \<noteq> markerId) (filter (\<lambda>x. episode_id x = p) rows)"
    by (simp add: conj_commute)
  also have "sort_key start (filter (\<lambda>s. marker_id s \<noteq> markerId) (filter (\<lambda>x. episode_id x = p) rows))
      = filter (\<lambda>s. marker_id s \<noteq> markerId) allMarkers"
    by (simp add: filter_sort allMarkers_def getEpisodeMarkers_def rows_def)
  finally have after: "getEpisodeMarkers (fst (deleteMarker st markerId)) p
      = map g (filter (\<lambda>s. marker_id s \<noteq> markerId) allMarkers)" .
  have "filter (\<lambda>s. marker_id s \<noteq> markerId) allMarkers = filter (\<lambda>s. index s \<noteq> k) allMarkers"
    using id_iff by (auto intro: filter_cong)
  moreover have "map index (map g (filter (\<lambda>s. index s \<noteq> k) allMarkers))
      = map (\<lambda>i. if k < i then i - 1 else i) (map index (filter (\<lambda>s. index s \<noteq> k) allMarkers))"
    by (auto simp: g_def all_set)
  moreover have "map index (filter (\<lambda>s. index s \<noteq> k) allMarkers)
      = filter (\<lambda>i. i \<noteq> k) (map index allMarkers)"
    by (simp add: filter_map comp_def)
  ultimately have "map index (getEpisodeMarkers (fst (deleteMarker st markerId)) p)
      = map (\<lambda>i. if k < i then i - 1 else i) (filter (\<lambda>i. i \<noteq> k) (map int [0..<N]))"
    using after wf' by simp
  also have "\<dots> = map int [0..<(if k < int N then N - 1 else N)]"
    using k_range(1) by (rule shifted_indices)
  finally have contiguous: "map index (getEpisodeMarkers (fst (deleteMarker st markerId)) p)
      = map int [0..<N - 1]"
    using k_range(2) by simp
  show ?thesis
    using ret tags contiguous
    by (simp add: g_def p_def k_def rows_def N_def allMarkers_def)
qed

theorem deleteMarker_reindex_witness:
  "snd (deleteMarker testState 7) = Inr (mk 7 101 0 10000 30000 ''intro'' False)
   \<and> map index (getEpisodeMarkers (fst (deleteMarker testState 7)) 101) = [0, 1]"
proof -
  let ?m = "mk 7 101 0 10000 30000 ''intro'' False"
  have ep: "episode_id ?m = 101"
    by (simp add: mk_def)
  have h1: "distinct (map marker_id (taggings testState))"
    by (simp add: testState_def defaultMarkers_def mk_def)
  have h3: "map index (getEpisodeMarkers testState (episode_id ?m))
              = map int [0..<length (getEpisodeMarkers testState (episode_id ?m))]"
    unfolding ep getEpisodeMarkers_101 by (simp add: mk_def upt_rec)
  note t = deleteMarker_reindex [OF h1 getSingleMarker_7 h3]
  have n: "map int [0..<length (getEpisodeMarkers testState 101) - 1] = [0, 1]"
    unfolding getEpisodeMarkers_101 by (simp add: upt_rec)
  have a: "snd (deleteMarker testState 7) = Inr ?m"
    using t by (rule conjunct1)
  have "map index (getEpisodeMarkers (fst (deleteMarker testState 7)) (episode_id ?m))
          = map int [0..<length (getEpisodeMarkers testState (episode_id ?m)) - 1]"
    using t by (rule conjunct2 [THEN conjunct2])
  then have b: "map index (getEpisodeMarkers (fst (deleteMarker testState 7)) 101) = [0, 1]"
    unfolding ep n .
  show ?thesis
    using a b by (rule conjI)
qed

section \<open>Bulk shift: classification and clamping of a row\<close>

lemma update_isError:
  "enabled row \<Longrightarrow>
   isError (update a b row)
     = (end_ms (rowMarker row) + orZero b < 0
        \<or> start (rowMarker row) + orZero a > episodeDuration row
        \<or> end_ms (rowMarker row) + orZero b \<le> start (rowMarker row) + orZero a)"
  by (simp add: update_def Let_def)

text \<open>
  Claim C2, evaluated at the first input of \<^verbatim>\<open>shiftSingleEpisodeTooMuchTest\<close>: the marker
  \<open>[15000, 45000]\<close> of a 600000 ms episode shifted by \<open>-45000\<close> ends at 0. The row is not
  classified as an error: it is marked as cut off, with the new times \<open>0\<close> and \<open>0\<close>.
\<close>

theorem update_end_zero_is_cutoff:
  "isError (update (Some (- 45000)) (Some (- 45000))
      (newRow (mk 1 4 0 15000 45000 ''intro'' False) 600000 True)) = False
   \<and> isWarn (update (Some (- 45000)) (Some (- 45000))
      (newRow (mk 1 4 0 15000 45000 ''intro'' False) 600000 True)) = True
   \<and> newStartTime (update (Some (- 45000)) (Some (- 45000))
      (newRow (mk 1 4 0 15000 45000 ''intro'' False) 600000 True)) = 0
   \<and> newEndTime (update (Some (- 45000)) (Some (- 45000))
      (newRow (mk 1 4 0 15000 45000 ''intro'' False) 600000 True)) = 0"
  by (simp add: update_def newRow_def mk_def orZero_def Let_def)

text \<open>
  The preview of a row. For an enabled row whose marker satisfies
  \<open>0 \<le> start < end \<le> duration\<close>, and deltas whose shifted interval is not an error
  (\<open>0 < end'\<close>, \<open>start' < duration\<close>, \<open>start' < end'\<close>) but is cut off (\<open>start' < 0\<close> or
  \<open>duration < end'\<close>), the row is shown as cut off and not as an error, and the new times
  it shows are \<open>[max 0 start', min duration end']\<close>. The row writes nothing: the shift is
  committed by the server.
\<close>

lemma update_cutoff_preview:
  assumes I3: "0 \<le> start (rowMarker row)" "start (rowMarker row) < end_ms (rowMarker row)"
      "end_ms (rowMarker row) \<le> episodeDuration row"
    and en: "enabled row"
    and s': "start' = start (rowMarker row) + dStart"
    and e': "end' = end_ms (rowMarker row) + dEnd"
    and notError: "0 < end'" "start' < episodeDuration row" "start' < end'"
    and cutoff: "start' < 0 \<or> episodeDuration row < end'"
  shows "isError (update (Some dStart) (Some dEnd) row) = False
       \<and> isWarn (update (Some dStart) (Some dEnd) row) = True
       \<and> newStartTime (update (Some dStart) (Some dEnd) row) = max 0 start'
       \<and> newEndTime (update (Some dStart) (Some dEnd) row) = min (episodeDuration row) end'
       \<and> 0 \<le> newStartTime (update (Some dStart) (Some dEnd) row)
       \<and> newStartTime (update (Some dStart) (Some dEnd) row)
            < newEndTime (update (Some dStart) (Some dEnd) row)
       \<and> newEndTime (update (Some dStart) (Some dEnd) row) \<le> episodeDuration row"
proof -
  have d: "0 < episodeDuration row"
    using I3 by linarith
  have ns: "newStartTime (update (Some dStart) (Some dEnd) row) = max 0 (min start' (episodeDuration row))"
    by (simp add: update_def Let_def orZero_def s' e')
  have ne: "newEndTime (update (Some dStart) (Some dEnd) row) = max 0 (min end' (episodeDuration row))"
    by (simp add: update_def Let_def orZero_def s' e')
  have err: "isError (update (Some dStart) (Some dEnd) row) = False"
    using en notError d by (simp add: update_isError orZero_def s' [symmetric] e' [symmetric])
  have warn: "isWarn (update (Some dStart) (Some dEnd) row) = True"
    using en notError cutoff by (auto simp: update_def Let_def orZero_def s' e')
  show ?thesis
    unfolding ns ne err warn using notError d by (auto simp: max_def min_def)
qed

lemma update_cutoff_preview_example:
  "isWarn (update (Some (- 16000)) (Some (- 16000))
      (newRow (mk 1 4 0 15000 45000 ''intro'' False) 600000 True)) = True
   \<and> newStartTime (update (Some (- 16000)) (Some (- 16000))
      (newRow (mk 1 4 0 15000 45000 ''intro'' False) 600000 True)) = 0
   \<and> newEndTime (update (Some (- 16000)) (Some (- 16000))
      (newRow (mk 1 4 0 15000 45000 ''intro'' False) 600000 True)) = 29000"
proof -
  let ?row = "newRow (mk 1 4 0 15000 45000 ''intro'' False) 600000 True"
  have h: "0 \<le> start (rowMarker ?row)" "start (rowMarker ?row) < end_ms (rowMarker ?row)"
    "end_ms (rowMarker ?row) \<le> episodeDuration ?row" "enabled ?row"
    "- 1000 = start (rowMarker ?row) + (- 16000)"
    "29000 = end_ms (rowMarker ?row) + (- 16000)"
    "(0::int) < 29000" "- 1000 < episodeDuration ?row" "(- 1000::int) < 29000"
    "(- 1000::int) < 0 \<or> episodeDuration ?row < 29000"
    by (simp_all add: newRow_def mk_def)
  have d: "episodeDuration ?row = 600000"
    by (simp add: newRow_def)
  note t = update_cutoff_preview [OF h]
  have "isWarn (update (Some (- 16000)) (Some (- 16000)) ?row) = True"
    using t by (rule conjunct2 [THEN conjunct1])
  moreover have "newStartTime (update (Some (- 16000)) (Some (- 16000)) ?row) = max 0 (- 1000)"
    using t by (rule conjunct2 [THEN conjunct2, THEN conjunct1])
  moreover have "newEndTime (update (Some (- 16000)) (Some (- 16000)) ?row) = min 600000 29000"
    using t unfolding d by (rule conjunct2 [THEN conjunct2, THEN conjunct2, THEN conjunct1])
  ultimately show ?thesis
    by simp
qed

section \<open>Adding a marker: rejected requests\<close>





section \<open>Shift: refusal on linked markers\<close>

lemma linked_iff:
  "list_ex (\<lambda>m. 1 < length (filter (\<lambda>m'. episode_id m' = episode_id m) retained)) retained
     = (\<exists>p. 1 < length (filter (\<lambda>m. episode_id m = p) retained))"
proof
  assume "list_ex (\<lambda>m. 1 < length (filter (\<lambda>m'. episode_id m' = episode_id m) retained)) retained"
  then show "\<exists>p. 1 < length (filter (\<lambda>m. episode_id m = p) retained)"
    by (auto simp: list_ex_iff)
next
  assume "\<exists>p. 1 < length (filter (\<lambda>m. episode_id m = p) retained)"
  then obtain p where p: "1 < length (filter (\<lambda>m. episode_id m = p) retained)"
    by blast
  then have "filter (\<lambda>m. episode_id m = p) retained \<noteq> []"
    by auto
  then obtain m where "m \<in> set retained" "episode_id m = p"
    by (metis (mono_tags, lifting) filter_False)
  then show "list_ex (\<lambda>m. 1 < length (filter (\<lambda>m'. episode_id m' = episode_id m) retained)) retained"
    using p by (auto simp: list_ex_iff)
qed

text \<open>
  Claim C5. A shift with \<open>force = false\<close> over a subtree in which some parent has more
  than one marker that is not ignored returns \<open>applied = false\<close> and \<open>conflict = true\<close>
  with all enumerated markers, and leaves the state unchanged.
\<close>

theorem Shift_linked_conflict:
  assumes "\<not> force"
    and "1 < length (filter (\<lambda>m. episode_id m = p)
            (filter (\<lambda>m. marker_id m \<notin> set ignoreIds) (ListMarkersForSubtree st rootId)))"
  shows "fst (Shift st rootId dStart dEnd force ignoreIds) = st
       \<and> applied (snd (Shift st rootId dStart dEnd force ignoreIds)) = False
       \<and> conflict (snd (Shift st rootId dStart dEnd force ignoreIds)) = True
       \<and> allMarkers (snd (Shift st rootId dStart dEnd force ignoreIds))
           = ListMarkersForSubtree st rootId"
proof -
  define retained where
    "retained = filter (\<lambda>m. marker_id m \<notin> set ignoreIds) (ListMarkersForSubtree st rootId)"
  have "list_ex (\<lambda>m. 1 < length (filter (\<lambda>m'. episode_id m' = episode_id m) retained)) retained"
    unfolding linked_iff using assms(2) retained_def by blast
  then show ?thesis
    using assms(1) by (simp add: Shift_def Let_def retained_def)
qed


theorem Shift_linked_conflict_witness:
  "fst (Shift testState 14 3000 3000 False []) = testState
   \<and> applied (snd (Shift testState 14 3000 3000 False [])) = False
   \<and> conflict (snd (Shift testState 14 3000 3000 False [])) = True
   \<and> allMarkers (snd (Shift testState 14 3000 3000 False []))
       = ListMarkersForSubtree testState 14"
proof -
  have l: "ListMarkersForSubtree testState 14 =
      [mk 3 14 0 15000 45000 ''intro'' False, mk 4 14 1 300000 345000 ''credits'' False,
       mk 5 14 2 360000 370000 ''credits'' True]"
    by (simp add: ListMarkersForSubtree_def inSubtree_def parentOf_def testState_def
        defaultMarkers_def defaultMetadataItems_def item_def mk_def)
  have h1: "\<not> False"
    by simp
  have h2: "1 < length (filter (\<lambda>m. episode_id m = 14)
            (filter (\<lambda>m. marker_id m \<notin> set []) (ListMarkersForSubtree testState 14)))"
    unfolding l by (simp add: mk_def)
  show ?thesis
    using h1 h2 by (rule Shift_linked_conflict)
qed

section \<open>Edit: the final flag on a marker that is not credits\<close>

lemma find_map_same:
  "(\<And>x. P (h x) = P x) \<Longrightarrow> find P (map h xs) = map_option h (find P xs)"
  by (induction xs) simp_all

lemma reindexParent_find:
  "find (\<lambda>r. marker_id r = markerId) (reindexParent rows p)
     = map_option (\<lambda>r. if episode_id r = p
          then r\<lparr>index := rankIn (sort_key start (filter (\<lambda>m. episode_id m = p) rows)) (marker_id r)\<rparr>
          else r)
        (find (\<lambda>r. marker_id r = markerId) rows)"
  unfolding reindexParent_def Let_def by (rule find_map_same) simp

text \<open>
  Claim C7. An edit that requests \<open>final = true\<close> with a type that is not credits, and
  that is valid otherwise (the marker exists, the times lie within the duration, no two
  markers of the parent intersect afterwards), commits: the marker returned and stored
  has the requested start, end and type, and its final flag is false.
\<close>

theorem Edit_final_on_non_credits:
  assumes found: "getSingleMarker st markerId = Some existing"
    and ty: "markerType = ''intro'' \<or> markerType = ''commercial''"
    and bounds: "0 \<le> startMs" "startMs < endMs" "endMs \<le> durationOf st (episode_id existing)"
    and noOverlap: "\<not> anyTwoIntersect (sort_key start
          (map (\<lambda>m. if marker_id m = markerId
                     then existing\<lparr>start := startMs, end_ms := endMs,
                                    marker_type := markerType, final := False\<rparr>
                     else m)
             (getEpisodeMarkers st (episode_id existing))))"
  shows "\<exists>m'. snd (Edit st markerId startMs endMs markerType True) = Inr m'
           \<and> start m' = startMs \<and> end_ms m' = endMs
           \<and> marker_type m' = markerType \<and> final m' = False
           \<and> getSingleMarker (fst (Edit st markerId startMs endMs markerType True)) markerId = Some m'"
proof -
  define p where "p = episode_id existing"
  define target where "target = existing\<lparr>start := startMs, end_ms := endMs,
                                        marker_type := markerType, final := False\<rparr>"
  define rows1 where "rows1 = map (\<lambda>r. if marker_id r = markerId then target else r) (taggings st)"
  define rows2 where "rows2 = reindexParent rows1 p"
  define updated where
    "updated = target\<lparr>index := rankIn (sort_key start (filter (\<lambda>m. episode_id m = p) rows1)) markerId\<rparr>"
  have id_ex: "marker_id existing = markerId"
    using found by (auto simp: getSingleMarker_def find_Some_iff)
  have nc: "markerType \<noteq> ''credits''" and legal: "legalType markerType"
    using ty by (auto simp: legalType_def)
  have "find (\<lambda>r. marker_id r = markerId) rows1
          = map_option (\<lambda>r. if marker_id r = markerId then target else r)
              (find (\<lambda>r. marker_id r = markerId) (taggings st))"
    unfolding rows1_def by (rule find_map_same) (simp add: target_def id_ex)
  then have f1: "find (\<lambda>r. marker_id r = markerId) rows1 = Some target"
    using found id_ex by (simp add: getSingleMarker_def)
  have f2: "find (\<lambda>r. marker_id r = markerId) rows2 = Some updated"
    unfolding rows2_def reindexParent_find f1
    by (simp add: updated_def target_def p_def id_ex)
  have e: "Edit st markerId startMs endMs markerType True =
      (let st1 = st\<lparr>taggings := rows2\<rparr>;
           siblings = getEpisodeMarkers st p;
           replaced = map (\<lambda>m. if marker_id m = markerId then target else m) siblings;
           st2 = (if marker_type existing \<noteq> markerType
                  then optionalCall (hasMarkerCache st1)
                         (MarkerCache_delta p
                            (countType ''intro'' siblings) (countType ''credits'' siblings)
                            (countType ''intro'' replaced) (countType ''credits'' replaced))
                         st1
                  else st1);
           st3 = optionalCall (hasBackupManager st2)
                   (BackupManager_recordEdit updated (start existing) (end_ms existing)) st2
       in (st3, Inr updated))"
    using found nc legal bounds noOverlap f2
    unfolding rows2_def rows1_def target_def p_def
    by (simp add: Edit_def Let_def)
  have r: "snd (Edit st markerId startMs endMs markerType True) = Inr updated"
    unfolding e by (simp add: Let_def)
  have "taggings (fst (Edit st markerId startMs endMs markerType True)) = rows2"
    unfolding e by (simp add: Let_def)
  then have g: "getSingleMarker (fst (Edit st markerId startMs endMs markerType True)) markerId
                  = Some updated"
    using f2 by (simp add: getSingleMarker_def)
  have "start updated = startMs" "end_ms updated = endMs" "marker_type updated = markerType"
    "final updated = False"
    by (simp_all add: updated_def target_def)
  then show ?thesis
    using r g by blast
qed

theorem Edit_final_on_non_credits_witness:
  "\<exists>m'. snd (Edit testState 1 14000 46000 ''intro'' True) = Inr m'
         \<and> start m' = 14000 \<and> end_ms m' = 46000
         \<and> marker_type m' = ''intro'' \<and> final m' = False
         \<and> getSingleMarker (fst (Edit testState 1 14000 46000 ''intro'' True)) 1 = Some m'"
proof -
  let ?existing = "mk 1 4 0 15000 45000 ''intro'' False"
  have ep: "episode_id ?existing = 4"
    by (simp add: mk_def)
  have h1: "getSingleMarker testState 1 = Some ?existing"
    by (simp add: getSingleMarker_def testState_def defaultMarkers_def mk_def)
  have h2: "''intro'' = ''intro'' \<or> ''intro'' = ''commercial''"
    by simp
  have h3: "(0::int) \<le> 14000" "(14000::int) < 46000"
    by simp_all
  have h4: "46000 \<le> durationOf testState (episode_id ?existing)"
    unfolding ep by (simp add: durationOf_def testState_def defaultMediaItems_def)
  have s: "getEpisodeMarkers testState 4 = [?existing]"
    by (simp add: getEpisodeMarkers_def testState_def defaultMarkers_def mk_def)
  have h5: "\<not> anyTwoIntersect (sort_key start
          (map (\<lambda>m. if marker_id m = 1
                     then ?existing\<lparr>start := 14000, end_ms := 46000,
                                    marker_type := ''intro'', final := False\<rparr>
                     else m)
             (getEpisodeMarkers testState (episode_id ?existing))))"
    unfolding ep s by simp
  show ?thesis
    using h1 h2 h3 h4 h5 by (rule Edit_final_on_non_credits)
qed

section \<open>Shift: the marker stored for a cut off marker\<close>

lemma find_by_id:
  "distinct (map marker_id xs) \<Longrightarrow> m \<in> set xs
   \<Longrightarrow> find (\<lambda>r. marker_id r = marker_id m) xs = Some m"
  by (induction xs) (auto simp: image_iff)

lemma foldl_reindexParent_find:
  "find (\<lambda>r. marker_id r = i) rows = Some r
   \<Longrightarrow> \<exists>k. find (\<lambda>r. marker_id r = i) (foldl reindexParent rows ps) = Some (r\<lparr>index := k\<rparr>)"
proof (induction ps arbitrary: rows r)
  case Nil
  then show ?case
    by (intro exI [of _ "index r"]) simp
next
  case (Cons p ps)
  obtain k0 where "find (\<lambda>r. marker_id r = i) (reindexParent rows p) = Some (r\<lparr>index := k0\<rparr>)"
  proof (cases "episode_id r = p")
    case True
    then show ?thesis
      using Cons.prems that by (simp add: reindexParent_find)
  next
    case False
    then have "find (\<lambda>r. marker_id r = i) (reindexParent rows p) = Some (r\<lparr>index := index r\<rparr>)"
      using Cons.prems by (simp add: reindexParent_find)
    then show ?thesis
      using that by blast
  qed
  from Cons.IH [OF this] obtain k where
    "find (\<lambda>r. marker_id r = i) (foldl reindexParent (reindexParent rows p) ps)
       = Some (r\<lparr>index := k0\<rparr>\<lparr>index := k\<rparr>)"
    by blast
  then show ?case
    by auto
qed

lemma taggings_recordEdits:
  "taggings (foldl (\<lambda>s new.
       case find (\<lambda>m. marker_id m = marker_id new) toWrite of
         Some old \<Rightarrow> optionalCall (hasBackupManager s)
                       (BackupManager_recordEdit new (start old) (end_ms old)) s
       | None \<Rightarrow> s) st xs) = taggings st"
  by (induction xs arbitrary: st) (simp_all split: option.splits)

lemma replaced_id:
  "marker_id (case find (\<lambda>m. marker_id m = marker_id r) xs of Some m' \<Rightarrow> m' | None \<Rightarrow> r)
     = marker_id r"
  by (auto split: option.splits simp: find_Some_iff)

text \<open>
  Claim C4. In a database with unique marker ids, let a shift be committed
  (\<open>applied = true\<close>) and let \<open>m\<close> be a marker of the subtree that is not ignored and is
  classified as cut off (not an error, and \<open>start' < 0\<close> or \<open>duration < end'\<close>), on a
  parent of positive duration. Then the marker stored under the id of \<open>m\<close> after the
  shift, which is among the markers the shift returns, has the times
  \<open>[max 0 start', min duration end']\<close> and the parent, type and final flag of \<open>m\<close>, and
  it satisfies invariant I3, \<open>0 \<le> start < end \<le> duration\<close>.
\<close>

theorem Shift_cutoff_clamped:
  assumes ids: "distinct (map marker_id (taggings st))"
    and sel: "m \<in> set (ListMarkersForSubtree st rootId)" "marker_id m \<notin> set ignoreIds"
    and committed: "applied (snd (Shift st rootId dStart dEnd force ignoreIds))"
    and cutoff: "classify (durationOf st (episode_id m)) dStart dEnd m = ClassCutoff"
    and pos: "0 < durationOf st (episode_id m)"
  shows "\<exists>m'. getSingleMarker (fst (Shift st rootId dStart dEnd force ignoreIds)) (marker_id m)
                 = Some m'
           \<and> m' \<in> set (allMarkers (snd (Shift st rootId dStart dEnd force ignoreIds)))
           \<and> start m' = max 0 (start m + dStart)
           \<and> end_ms m' = min (durationOf st (episode_id m)) (end_ms m + dEnd)
           \<and> episode_id m' = episode_id m
           \<and> marker_type m' = marker_type m
           \<and> final m' = final m
           \<and> 0 \<le> start m'
           \<and> start m' < end_ms m'
           \<and> end_ms m' \<le> durationOf st (episode_id m)"
proof -
  define D where "D = durationOf st (episode_id m)"
  define enumerated where "enumerated = ListMarkersForSubtree st rootId"
  define retained where "retained = filter (\<lambda>m. marker_id m \<notin> set ignoreIds) enumerated"
  define linked where
    "linked = list_ex (\<lambda>m. 1 < length (filter (\<lambda>m'. episode_id m' = episode_id m) retained))
                retained"
  define anyError where
    "anyError = list_ex (\<lambda>m. classify (durationOf st (episode_id m)) dStart dEnd m = ClassError)
                  retained"
  define toWrite where
    "toWrite = filter (\<lambda>m. \<not> classify (durationOf st (episode_id m)) dStart dEnd m = ClassError)
                 retained"
  define h where "h = (\<lambda>m. clampShifted (durationOf st (episode_id m)) dStart dEnd m)"
  define shifted where "shifted = map h toWrite"
  define H where
    "H = (\<lambda>r. case find (\<lambda>m. marker_id m = marker_id r) shifted of Some m' \<Rightarrow> m' | None \<Rightarrow> r)"
  define rows1 where "rows1 = map H (taggings st)"
  define rows2 where "rows2 = foldl reindexParent rows1 (remdups (map episode_id shifted))"
  define stored where "stored = filter (\<lambda>r. marker_id r \<in> set (map marker_id shifted)) rows2"
  define st2 where
    "st2 = foldl (\<lambda>s new.
             case find (\<lambda>m. marker_id m = marker_id new) toWrite of
               Some old \<Rightarrow> optionalCall (hasBackupManager s)
                             (BackupManager_recordEdit new (start old) (end_ms old)) s
             | None \<Rightarrow> s) (st\<lparr>taggings := rows2\<rparr>) stored"
  have sh: "Shift st rootId dStart dEnd force ignoreIds =
      (if linked \<and> \<not> force
       then (st, \<lparr>applied = False, conflict = True, overflow = anyError, allMarkers = enumerated\<rparr>)
       else if anyError \<and> \<not> force
       then (st, \<lparr>applied = False, conflict = False, overflow = True, allMarkers = enumerated\<rparr>)
       else (st2, \<lparr>applied = True, conflict = False, overflow = False, allMarkers = stored\<rparr>))"
    unfolding Shift_def Let_def st2_def stored_def rows2_def rows1_def H_def shifted_def h_def
      toWrite_def anyError_def linked_def retained_def enumerated_def
    by (rule refl)
  have res: "Shift st rootId dStart dEnd force ignoreIds
      = (st2, \<lparr>applied = True, conflict = False, overflow = False, allMarkers = stored\<rparr>)"
    using committed unfolding sh by (simp split: if_splits)
  have tg: "taggings st2 = rows2"
    unfolding st2_def taggings_recordEdits by simp
  let ?P = "\<lambda>r. marker_id r = marker_id m"
  have mt: "m \<in> set (taggings st)"
    using sel(1) by (simp add: ListMarkersForSubtree_def)
  have notErr: "classify (durationOf st (episode_id m)) dStart dEnd m \<noteq> ClassError"
    using cutoff by simp
  have mw: "m \<in> set toWrite"
    using sel notErr by (simp add: toWrite_def retained_def enumerated_def)
  have dw: "distinct (map marker_id toWrite)"
    unfolding toWrite_def retained_def enumerated_def ListMarkersForSubtree_def
    using ids by (intro distinct_map_filter)
  have f0: "find ?P (taggings st) = Some m"
    using ids mt by (rule find_by_id)
  have fw: "find ?P toWrite = Some m"
    using dw mw by (rule find_by_id)
  have hid: "marker_id (h x) = marker_id x" for x
    by (simp add: h_def clampShifted_def)
  have fs: "find ?P shifted = Some (h m)"
    unfolding shifted_def using fw by (simp add: find_map_same hid)
  have Hid: "marker_id (H r) = marker_id r" for r
    unfolding H_def by (rule replaced_id)
  have Hm: "H m = h m"
    unfolding H_def using fs by simp
  have f1: "find ?P rows1 = Some (h m)"
    unfolding rows1_def using f0 Hm by (simp add: find_map_same Hid)
  from foldl_reindexParent_find [OF f1] obtain k where
    f2: "find ?P rows2 = Some ((h m)\<lparr>index := k\<rparr>)"
    unfolding rows2_def by blast
  define m' where "m' = (h m)\<lparr>index := k\<rparr>"
  have get: "getSingleMarker (fst (Shift st rootId dStart dEnd force ignoreIds)) (marker_id m)
               = Some m'"
    unfolding res getSingleMarker_def using tg f2 by (simp add: m'_def)
  have in2: "m' \<in> set rows2"
    using f2 unfolding m'_def find_Some_iff by (metis nth_mem)
  have "marker_id m' \<in> set (map marker_id shifted)"
    using mw by (simp add: m'_def hid shifted_def image_iff) (metis hid)
  then have mem: "m' \<in> set (allMarkers (snd (Shift st rootId dStart dEnd force ignoreIds)))"
    unfolding res using in2 by (simp add: stored_def)
  have fields: "start m' = max 0 (start m + dStart)" "end_ms m' = min D (end_ms m + dEnd)"
    "episode_id m' = episode_id m" "marker_type m' = marker_type m" "final m' = final m"
    by (simp_all add: m'_def h_def clampShifted_def D_def)
  have ne: "\<not> (end_ms m + dEnd \<le> 0 \<or> D \<le> start m + dStart \<or> end_ms m + dEnd \<le> start m + dStart)"
    using cutoff unfolding classify_def Let_def D_def by (simp split: if_splits)
  have I3: "0 \<le> start m'" "start m' < end_ms m'" "end_ms m' \<le> D"
    unfolding fields using ne pos unfolding D_def [symmetric] by (auto simp: max_def min_def)
  show ?thesis
    using get mem fields I3 unfolding D_def by blast
qed

text \<open>
  The example of the specification: the marker \<open>[15000, 45000]\<close> of episode 4 (600000 ms)
  shifted by \<open>-16000\<close> is stored as \<open>[0, 29000]\<close>.
\<close>

lemma ids_testState: "distinct (map marker_id (taggings testState))"
  by (simp add: testState_def defaultMarkers_def mk_def)

lemma subtree_4:
  "ListMarkersForSubtree testState 4 = [mk 1 4 0 15000 45000 ''intro'' False]"
  by (simp add: ListMarkersForSubtree_def inSubtree_def parentOf_def testState_def
      defaultMarkers_def defaultMetadataItems_def item_def mk_def)

lemma duration_4: "durationOf testState 4 = 600000"
  by (simp add: durationOf_def testState_def defaultMediaItems_def)

theorem Shift_cutoff_clamped_witness:
  "distinct (map marker_id (taggings testState))
   \<and> mk 1 4 0 15000 45000 ''intro'' False \<in> set (ListMarkersForSubtree testState 4)
   \<and> applied (snd (Shift testState 4 (- 16000) (- 16000) False []))
   \<and> classify 600000 (- 16000) (- 16000) (mk 1 4 0 15000 45000 ''intro'' False) = ClassCutoff
   \<and> durationOf testState 4 = 600000
   \<and> map_option start (getSingleMarker (fst (Shift testState 4 (- 16000) (- 16000) False [])) 1)
       = Some 0
   \<and> map_option end_ms (getSingleMarker (fst (Shift testState 4 (- 16000) (- 16000) False [])) 1)
       = Some 29000"
proof -
  let ?m = "mk 1 4 0 15000 45000 ''intro'' False"
  have e: "episode_id ?m = 4" "marker_id ?m = 1" "start ?m = 15000" "end_ms ?m = 45000"
    by (simp_all add: mk_def)
  have c: "classify 600000 (- 16000) (- 16000) ?m = ClassCutoff"
    by (simp add: classify_def mk_def)
  have h2: "?m \<in> set (ListMarkersForSubtree testState 4)"
    unfolding subtree_4 by simp
  have h3: "marker_id ?m \<notin> set []"
    by simp
  have h4: "applied (snd (Shift testState 4 (- 16000) (- 16000) False []))"
    using c by (simp add: Shift_def Let_def subtree_4 e duration_4 del: classify_def)
  have h5: "classify (durationOf testState (episode_id ?m)) (- 16000) (- 16000) ?m = ClassCutoff"
    unfolding e duration_4 by (rule c)
  have h6: "0 < durationOf testState (episode_id ?m)"
    unfolding e duration_4 by simp
  from Shift_cutoff_clamped [OF ids_testState h2 h3 h4 h5 h6] obtain m' where
    g: "getSingleMarker (fst (Shift testState 4 (- 16000) (- 16000) False [])) 1 = Some m'"
    and s: "start m' = max 0 (15000 + - 16000)"
    and t: "end_ms m' = min 600000 (45000 + - 16000)"
    unfolding e duration_4 by blast
  have r1: "map_option start (getSingleMarker (fst (Shift testState 4 (- 16000) (- 16000) False [])) 1)
       = Some 0"
    unfolding g using s by simp
  have r2: "map_option end_ms (getSingleMarker (fst (Shift testState 4 (- 16000) (- 16000) False [])) 1)
       = Some 29000"
    unfolding g using t by simp
  from ids_testState h2 h4 c duration_4 r1 r2 show ?thesis
    by (intro conjI)
qed

end
